theory Spec2Isabelle
  imports Main "HOL-Library.Sublist" "HOL-Library.Code_Target_Nat"
begin

section \<open>Strings and the path sanitizers of lib/storage.js\<close>

text \<open>
  A JavaScript string is modelled as a \<^typ>\<open>string\<close>, one \<^typ>\<open>char\<close> per code unit
  (code units below 256). The two sanitizers are chains of two global regular-expression
  replacements: \<^verbatim>\<open>name.replace(/\.\./g, "")\<close> scans from the left and deletes every
  non-overlapping match of two dots, and the second replacement maps single characters.
\<close>

fun remove_dotdot :: "string \<Rightarrow> string" where
  "remove_dotdot (a # b # s) =
     (if a = CHR ''.'' \<and> b = CHR ''.'' then remove_dotdot s else a # remove_dotdot (b # s))"
| "remove_dotdot s = s"

definition pkg_char_ok :: "char \<Rightarrow> bool" where
  "pkg_char_ok c \<longleftrightarrow>
     c \<in> set ''@/abcdefghijklmnopqrstuvwxyzABCDEFGHIJKLMNOPQRSTUVWXYZ0123456789-_.''"

definition sanitizePkgName :: "string \<Rightarrow> string" where
  "sanitizePkgName name =
     map (\<lambda>c. if pkg_char_ok c then c else CHR ''_'') (remove_dotdot name)"

definition sanitizeFilename :: "string \<Rightarrow> string" where
  "sanitizeFilename name =
     map (\<lambda>c. if c = CHR ''/'' \<or> c = CHR 0x5C then CHR ''_'' else c) (remove_dotdot name)"

fun has_dotdot :: "string \<Rightarrow> bool" where
  "has_dotdot (a # b # s) \<longleftrightarrow> (a = CHR ''.'' \<and> b = CHR ''.'') \<or> has_dotdot (b # s)"
| "has_dotdot s \<longleftrightarrow> False"

section \<open>Path joining (POSIX \<^verbatim>\<open>path.join\<close> of the Node.js runtime)\<close>

text \<open>
  \<^verbatim>\<open>path.join(...args)\<close> concatenates the non-empty arguments with a slash and normalizes
  the result: empty and \<^verbatim>\<open>.\<close> segments are dropped and a \<^verbatim>\<open>..\<close> segment removes the segment
  before it (above the start it is kept for a relative path and dropped for an absolute one).
  The stack of segments built by the normalization has its last segment at the head.
\<close>

fun split_path :: "string \<Rightarrow> string list" where
  "split_path [] = [[]]"
| "split_path (c # s) =
     (if c = CHR ''/'' then [] # split_path s
      else (case split_path s of [] \<Rightarrow> [[c]] | x # xs \<Rightarrow> (c # x) # xs))"

fun joinSep :: "string list \<Rightarrow> string" where
  "joinSep [] = []"
| "joinSep [x] = x"
| "joinSep (x # y # r) = x @ CHR ''/'' # joinSep (y # r)"

definition normalizeStep :: "bool \<Rightarrow> string list \<Rightarrow> string \<Rightarrow> string list" where
  "normalizeStep allowAboveRoot st seg =
     (if seg = [] \<or> seg = ''.'' then st
      else if seg = ''..'' then
        (case st of
           [] \<Rightarrow> if allowAboveRoot then [''..''] else []
         | t # ts \<Rightarrow> if t = ''..'' then (if allowAboveRoot then ''..'' # st else st) else ts)
      else seg # st)"

definition normalizeString :: "bool \<Rightarrow> string \<Rightarrow> string list" where
  "normalizeString allowAboveRoot p = rev (foldl (normalizeStep allowAboveRoot) [] (split_path p))"

definition isAbsolute :: "string \<Rightarrow> bool" where
  "isAbsolute p \<longleftrightarrow> p \<noteq> [] \<and> hd p = CHR ''/''"

definition normalize :: "string \<Rightarrow> string" where
  "normalize p =
     (if p = [] then ''.''
      else let trailingSeparator = (last p = CHR ''/'');
               body = joinSep (normalizeString (\<not> isAbsolute p) p)
           in if body = [] then (if isAbsolute p then ''/'' else if trailingSeparator then ''./'' else ''.'')
              else (if isAbsolute p then ''/'' else []) @ body @ (if trailingSeparator then ''/'' else []))"

definition path_join :: "string list \<Rightarrow> string" where
  "path_join args =
     (let parts = filter (\<lambda>a. a \<noteq> []) args
      in if parts = [] then ''.'' else normalize (joinSep parts))"

text \<open>
  The components a path resolves to, and containment of one path in a directory: the
  directory's components are a proper prefix of the path's components.
\<close>

definition components :: "string \<Rightarrow> string list" where
  "components p = normalizeString (\<not> isAbsolute p) p"

definition strictly_inside :: "string \<Rightarrow> string \<Rightarrow> bool" where
  "strictly_inside root p \<longleftrightarrow>
     isAbsolute p = isAbsolute root \<and> strict_prefix (components root) (components p)"

text \<open>The directory of a package and the path of one of its tarballs (lib/storage.js).\<close>

definition packageDir :: "string \<Rightarrow> string \<Rightarrow> string" where
  "packageDir base pkg = path_join [base, ''packages'', sanitizePkgName pkg]"

definition tarballPath :: "string \<Rightarrow> string \<Rightarrow> string \<Rightarrow> string" where
  "tarballPath base pkg filename =
     path_join [path_join [packageDir base pkg, ''tarballs''], sanitizeFilename filename]"

subsection \<open>Normal forms of segment stacks\<close>

text \<open>
  Auxiliary predicates for the proofs about \<^const>\<open>normalizeString\<close>: a stack in normal form
  holds proper segments, with parent segments only at its bottom, and a list of segments that
  the normalization pushes one after the other.
\<close>

definition seg_ok :: "string \<Rightarrow> bool" where
  "seg_ok x \<longleftrightarrow> x \<noteq> [] \<and> x \<noteq> ''.'' \<and> CHR ''/'' \<notin> set x"

fun nfr :: "bool \<Rightarrow> string list \<Rightarrow> bool" where
  "nfr allow [] = True"
| "nfr allow (t # ts) \<longleftrightarrow>
     seg_ok t \<and> (t = ''..'' \<longrightarrow> allow \<and> (\<forall>u\<in>set ts. u = ''..'')) \<and> nfr allow ts"

fun fwd_ok :: "bool \<Rightarrow> string list \<Rightarrow> string list \<Rightarrow> bool" where
  "fwd_ok allow st [] = True"
| "fwd_ok allow st (x # xs) \<longleftrightarrow>
     seg_ok x \<and> (x = ''..'' \<longrightarrow> allow \<and> (st = [] \<or> hd st = ''..'')) \<and> fwd_ok allow (x # st) xs"

section \<open>The file system\<close>

text \<open>
  The store works on a directory tree through \<^verbatim>\<open>fs/promises\<close>. A path string denotes
  the node at its resolved components; an absolute path is marked by a leading \<^verbatim>\<open>/\<close>
  component. The tree is an association list from resolved paths to nodes, the working
  directory and the root directory being directories that always exist. A failing call
  rejects with the error code the operating system gives; permission and device errors
  are not part of the model. File contents are byte strings.

  Every call first validates its path: Node.js rejects a path with a NUL code unit
  (\<^verbatim>\<open>ERR_INVALID_ARG_VALUE\<close>), and the operating system (Linux) rejects a path of 4096 bytes
  or more and a name of more than 255 bytes with \<^verbatim>\<open>ENAMETOOLONG\<close>. A code unit below 128
  is one byte of the path and one from 128 on is two (UTF-8). The store hands over
  normalized paths only, whose names are the components they resolve to.
\<close>

datatype error =
    ENOENT | EEXIST | ENOTDIR | EISDIR | ENOTSUP | ENAMETOOLONG | ERR_INVALID_ARG_VALUE
  | SyntaxError | TypeError | RangeError

datatype node = Dir | File string

type_synonym fs = "(string list \<times> node) list"

definition byte_length :: "string \<Rightarrow> nat" where
  "byte_length s = length s + length (filter (\<lambda>c. 128 \<le> (of_char c :: nat)) s)"

definition long_name :: "string \<Rightarrow> bool" where
  "long_name seg \<longleftrightarrow> 255 < byte_length seg"

definition path_error :: "string \<Rightarrow> error option" where
  "path_error p =
     (if CHR 0x00 \<in> set p then Some ERR_INVALID_ARG_VALUE
      else if 4096 \<le> byte_length p then Some ENAMETOOLONG
      else None)"

definition fs_key :: "string \<Rightarrow> string list" where
  "fs_key p = (if isAbsolute p then [''/''] else []) @ components p"

definition node_at :: "fs \<Rightarrow> string list \<Rightarrow> node option" where
  "node_at fs k = (if k = [] \<or> k = [''/''] then Some Dir else map_of fs k)"

text \<open>
  The error of looking up a path that leads to no node: the walk from \<open>cur\<close> along the
  names stops at the first name that is not there, or at a file that is not the last name.
\<close>

fun missing_from :: "fs \<Rightarrow> string list \<Rightarrow> string list \<Rightarrow> error" where
  "missing_from fs cur [] = ENOENT"
| "missing_from fs cur (s # rest) =
     (case node_at fs (cur @ [s]) of
        None \<Rightarrow> if long_name s then ENAMETOOLONG else ENOENT
      | Some (File d) \<Rightarrow> if rest = [] then ENOENT else ENOTDIR
      | Some Dir \<Rightarrow> missing_from fs (cur @ [s]) rest)"

definition missing :: "fs \<Rightarrow> string list \<Rightarrow> error" where
  "missing fs k = missing_from fs [] k"

text \<open>
  \<^verbatim>\<open>fs.mkdir(p, { recursive: true })\<close>: every missing directory on the way is created. The
  directories made before a failing step stay.
\<close>

fun mkdir_from :: "fs \<Rightarrow> string list \<Rightarrow> string list \<Rightarrow> error option \<times> fs" where
  "mkdir_from fs cur [] = (None, fs)"
| "mkdir_from fs cur (s # rest) =
     (case node_at fs (cur @ [s]) of
        Some (File d) \<Rightarrow> (Some (if rest = [] then EEXIST else ENOTDIR), fs)
      | Some Dir \<Rightarrow> mkdir_from fs (cur @ [s]) rest
      | None \<Rightarrow>
          if long_name s then (Some ENAMETOOLONG, fs)
          else mkdir_from ((cur @ [s], Dir) # fs) (cur @ [s]) rest)"

definition fs_mkdir :: "fs \<Rightarrow> string \<Rightarrow> error option \<times> fs" where
  "fs_mkdir fs p =
     (case path_error p of
        Some e \<Rightarrow> (Some e, fs)
      | None \<Rightarrow> mkdir_from fs [] (fs_key p))"

definition parent_error :: "fs \<Rightarrow> string list \<Rightarrow> error option" where
  "parent_error fs k =
     (case node_at fs (butlast k) of
        None \<Rightarrow> Some (missing fs (butlast k))
      | Some (File d) \<Rightarrow> Some ENOTDIR
      | Some Dir \<Rightarrow> if list_ex long_name k then Some ENAMETOOLONG else None)"

definition put_node :: "string list \<Rightarrow> node \<Rightarrow> fs \<Rightarrow> fs" where
  "put_node k n fs = (k, n) # filter (\<lambda>e. fst e \<noteq> k) fs"

definition fs_writeFile :: "fs \<Rightarrow> string \<Rightarrow> string \<Rightarrow> error + fs" where
  "fs_writeFile fs p d =
     (case path_error p of
        Some e \<Rightarrow> Inl e
      | None \<Rightarrow>
          (let k = fs_key p in
           case node_at fs k of
             Some Dir \<Rightarrow> Inl EISDIR
           | _ \<Rightarrow> (case parent_error fs k of
                     Some e \<Rightarrow> Inl e
                   | None \<Rightarrow> Inr (put_node k (File d) fs))))"

definition fs_readFile :: "fs \<Rightarrow> string \<Rightarrow> error + string" where
  "fs_readFile fs p =
     (case path_error p of
        Some e \<Rightarrow> Inl e
      | None \<Rightarrow>
          (case node_at fs (fs_key p) of
             None \<Rightarrow> Inl (missing fs (fs_key p))
           | Some Dir \<Rightarrow> Inl EISDIR
           | Some (File d) \<Rightarrow> Inr d))"

text \<open>
  \<^verbatim>\<open>fs.rename(a, b)\<close> of a file: the file replaces whatever file is at \<^verbatim>\<open>b\<close>. The store
  only renames the temporary file it has just written; renaming a directory is left out.
\<close>

definition fs_rename :: "fs \<Rightarrow> string \<Rightarrow> string \<Rightarrow> error + fs" where
  "fs_rename fs a b =
     (case path_error a of
        Some e \<Rightarrow> Inl e
      | None \<Rightarrow>
     (case path_error b of
        Some e \<Rightarrow> Inl e
      | None \<Rightarrow>
          (let ka = fs_key a; kb = fs_key b in
           case node_at fs ka of
             None \<Rightarrow> Inl (missing fs ka)
           | Some Dir \<Rightarrow> Inl ENOTSUP
           | Some (File d) \<Rightarrow>
               (case node_at fs kb of
                  Some Dir \<Rightarrow> Inl EISDIR
                | _ \<Rightarrow> (case parent_error fs kb of
                          Some e \<Rightarrow> Inl e
                        | None \<Rightarrow> Inr (put_node kb (File d) (filter (\<lambda>e. fst e \<noteq> ka) fs)))))))"

definition fs_access :: "fs \<Rightarrow> string \<Rightarrow> error + unit" where
  "fs_access fs p =
     (case path_error p of
        Some e \<Rightarrow> Inl e
      | None \<Rightarrow>
          (case node_at fs (fs_key p) of
             None \<Rightarrow> Inl (missing fs (fs_key p))
           | Some n \<Rightarrow> Inr ()))"

text \<open>
  \<^verbatim>\<open>fs.readdir(p, { withFileTypes: true })\<close>: the names of the entries directly below
  \<^verbatim>\<open>p\<close>, each with the flag \<^verbatim>\<open>isDirectory()\<close>.
\<close>

definition fs_readdir :: "fs \<Rightarrow> string \<Rightarrow> error + (string \<times> bool) list" where
  "fs_readdir fs p =
     (case path_error p of
        Some e \<Rightarrow> Inl e
      | None \<Rightarrow>
          (let k = fs_key p in
           case node_at fs k of
             None \<Rightarrow> Inl (missing fs k)
           | Some (File d) \<Rightarrow> Inl ENOTDIR
           | Some Dir \<Rightarrow>
               Inr (map (\<lambda>e. (last (fst e), snd e = Dir))
                      (filter (\<lambda>e. fst e \<noteq> [] \<and> fst e \<noteq> [''/''] \<and> butlast (fst e) = k) fs))))"

section \<open>JSON documents and the JavaScript operations on them\<close>

text \<open>
  The values \<^verbatim>\<open>JSON.parse\<close> returns. A number is kept as the text \<^verbatim>\<open>String(n)\<close> gives
  for it (zero is \<^verbatim>\<open>0\<close>), which is all the program looks at: its truthiness and its
  conversion to a property key. An object is the list of its own properties. \<^verbatim>\<open>JNull\<close>
  is \<^verbatim>\<open>null\<close>; a property that is not there (\<^verbatim>\<open>undefined\<close>) is \<^const>\<open>None\<close>.
\<close>

datatype json =
    JNull
  | JBool bool
  | JNum string
  | JStr string
  | JArr "json list"
  | JObj "(string \<times> json) list"

fun truthy :: "json \<Rightarrow> bool" where
  "truthy JNull = False"
| "truthy (JBool b) = b"
| "truthy (JNum t) = (t \<noteq> ''0'')"
| "truthy (JStr s) = (s \<noteq> [])"
| "truthy (JArr xs) = True"
| "truthy (JObj ps) = True"

text \<open>\<^verbatim>\<open>v || {}\<close> for a property \<^verbatim>\<open>v\<close> that may be undefined.\<close>

fun or_empty :: "json option \<Rightarrow> json" where
  "or_empty None = JObj []"
| "or_empty (Some v) = (if truthy v then v else JObj [])"

text \<open>Decimal digits of a natural number: array indices and \<^verbatim>\<open>Date.now()\<close> as text.\<close>

definition digit_char :: "nat \<Rightarrow> char" where
  "digit_char d = char_of (48 + d)"

fun dec :: "nat \<Rightarrow> string" where
  "dec n = (if n < 10 then [digit_char n] else dec (n div 10) @ [digit_char (n mod 10)])"

declare dec.simps [simp del]

definition digit_val :: "char \<Rightarrow> nat" where
  "digit_val c = of_char c - 48"

definition is_digit :: "char \<Rightarrow> bool" where
  "is_digit c \<longleftrightarrow> c \<in> set ''0123456789''"

text \<open>
  A property key is an array index when it is the canonical decimal text of a number
  below \<open>2^32 - 1\<close>.
\<close>

definition array_index :: "string \<Rightarrow> nat option" where
  "array_index k =
     (if k \<noteq> [] \<and> list_all is_digit k then
        (let n = foldl (\<lambda>a c. 10 * a + digit_val c) 0 k
         in if dec n = k \<and> n < 4294967295 then Some n else None)
      else None)"

text \<open>\<^verbatim>\<open>String(v)\<close>, the conversion of a value used as a property key.\<close>

fun intercalate :: "string \<Rightarrow> string list \<Rightarrow> string" where
  "intercalate sep [] = []"
| "intercalate sep [x] = x"
| "intercalate sep (x # y # r) = x @ sep @ intercalate sep (y # r)"

fun to_string :: "json \<Rightarrow> string" where
  "to_string JNull = ''null''"
| "to_string (JBool b) = (if b then ''true'' else ''false'')"
| "to_string (JNum t) = t"
| "to_string (JStr s) = s"
| "to_string (JArr xs) =
     intercalate '','' (map (\<lambda>x. if x = JNull then [] else to_string x) xs)"
| "to_string (JObj ps) = ''[object Object]''"

text \<open>
  The own enumerable properties of a value, as \<^verbatim>\<open>Object.assign\<close> and property reads see
  them: an array has its indices, a string its characters, other primitives none.
\<close>

fun own_props :: "json \<Rightarrow> (string \<times> json) list" where
  "own_props (JObj ps) = ps"
| "own_props (JArr xs) = zip (map dec [0..<length xs]) xs"
| "own_props (JStr s) = zip (map dec [0..<length s]) (map (\<lambda>c. JStr [c]) s)"
| "own_props v = []"

text \<open>
  \<^verbatim>\<open>Object.assign({}, v)\<close> sets each own property of \<^verbatim>\<open>v\<close> on a fresh object with an
  ordinary assignment. For the key \<^verbatim>\<open>__proto__\<close> that assignment runs the inherited setter
  and creates no own property.
\<close>

definition object_assign :: "json \<Rightarrow> json" where
  "object_assign v = JObj (filter (\<lambda>e. fst e \<noteq> ''__proto__'') (own_props v))"

text \<open>The properties every object inherits from \<^verbatim>\<open>Object.prototype\<close>.\<close>

definition object_prototype_names :: "string list" where
  "object_prototype_names =
     [''constructor'', ''__defineGetter__'', ''__defineSetter__'', ''hasOwnProperty'',
      ''__lookupGetter__'', ''__lookupSetter__'', ''isPrototypeOf'', ''propertyIsEnumerable'',
      ''toString'', ''valueOf'', ''__proto__'', ''toLocaleString'']"

text \<open>Writing an own property of an object, the first entry for a key being the property.\<close>

fun set_prop :: "string \<Rightarrow> json \<Rightarrow> (string \<times> json) list \<Rightarrow> (string \<times> json) list" where
  "set_prop k v [] = [(k, v)]"
| "set_prop k v (e # ps) = (if fst e = k then (k, v) # ps else e # set_prop k v ps)"

text \<open>\<^verbatim>\<open>encodeURIComponent\<close> on code units below 256, encoded as UTF-8.\<close>

definition hex_digit :: "nat \<Rightarrow> char" where
  "hex_digit d = (''0123456789ABCDEF'') ! d"

definition percent :: "nat \<Rightarrow> string" where
  "percent b = [CHR ''%'', hex_digit (b div 16), hex_digit (b mod 16)]"

definition uri_unreserved :: "char \<Rightarrow> bool" where
  "uri_unreserved c \<longleftrightarrow>
     c \<in> set ''abcdefghijklmnopqrstuvwxyzABCDEFGHIJKLMNOPQRSTUVWXYZ0123456789-_.!~*'()''"

definition encode_char :: "char \<Rightarrow> string" where
  "encode_char c =
     (let n = of_char c :: nat in
      if uri_unreserved c then [c]
      else if n < 128 then percent n
      else percent (192 + n div 64) @ percent (128 + n mod 64))"

definition encodeURIComponent :: "string \<Rightarrow> string" where
  "encodeURIComponent s = concat (map encode_char s)"

section \<open>lib/storage.js\<close>

text \<open>
  Each function takes the file system and returns its result, or the error it rejects
  with, together with the file system it leaves. \<^verbatim>\<open>JSON.parse\<close>, \<^verbatim>\<open>JSON.stringify\<close> and the
  clock \<^verbatim>\<open>Date.now()\<close> belong to the runtime and are parameters: \<open>parse\<close> gives
  \<^const>\<open>None\<close> where \<^verbatim>\<open>JSON.parse\<close> throws.
\<close>

definition ensurePackageDir :: "fs \<Rightarrow> string \<Rightarrow> string \<Rightarrow> (error + string) \<times> fs" where
  "ensurePackageDir fs base pkg =
     (let pkgDir = path_join [base, ''packages'', sanitizePkgName pkg] in
      case fs_mkdir fs pkgDir of
        (Some e, fs1) \<Rightarrow> (Inl e, fs1)
      | (None, fs1) \<Rightarrow>
          (case fs_mkdir fs1 (path_join [pkgDir, ''tarballs'']) of
             (Some e, fs2) \<Rightarrow> (Inl e, fs2)
           | (None, fs2) \<Rightarrow> (Inr pkgDir, fs2)))"

definition metaPath :: "string \<Rightarrow> string \<Rightarrow> string" where
  "metaPath base pkg = path_join [path_join [base, ''packages'', sanitizePkgName pkg], ''meta.json'']"

text \<open>
  \<^verbatim>\<open>readPackageMeta\<close>: the body of the \<^verbatim>\<open>try\<close> reads and parses the file, and the
  \<^verbatim>\<open>catch\<close> turns every error into \<^verbatim>\<open>null\<close>.
\<close>

definition readPackageMeta_try :: "(string \<Rightarrow> json option) \<Rightarrow> fs \<Rightarrow> string \<Rightarrow> string \<Rightarrow> error + json" where
  "readPackageMeta_try parse fs base pkg =
     (case fs_readFile fs (metaPath base pkg) of
        Inl e \<Rightarrow> Inl e
      | Inr raw \<Rightarrow> (case parse raw of None \<Rightarrow> Inl SyntaxError | Some v \<Rightarrow> Inr v))"

definition readPackageMeta :: "(string \<Rightarrow> json option) \<Rightarrow> fs \<Rightarrow> string \<Rightarrow> string \<Rightarrow> error + json" where
  "readPackageMeta parse fs base pkg =
     (case readPackageMeta_try parse fs base pkg of
        Inl err \<Rightarrow> Inr JNull
      | Inr v \<Rightarrow> Inr v)"

definition tmpPath :: "string \<Rightarrow> string \<Rightarrow> nat \<Rightarrow> string" where
  "tmpPath base pkg now = metaPath base pkg @ ''.tmp-'' @ dec now"

text \<open>
  \<^verbatim>\<open>writePackageMeta\<close> in its two steps, each ending at an \<^verbatim>\<open>await\<close>: the directory is
  ensured and the text written to the temporary file; then the temporary file is renamed.
\<close>

definition writePackageMeta_tmp ::
  "(json \<Rightarrow> string) \<Rightarrow> nat \<Rightarrow> fs \<Rightarrow> string \<Rightarrow> string \<Rightarrow> json \<Rightarrow> (error + string \<times> string) \<times> fs" where
  "writePackageMeta_tmp stringify now fs base pkg meta =
     (case ensurePackageDir fs base pkg of
        (Inl e, fs1) \<Rightarrow> (Inl e, fs1)
      | (Inr pkgDir, fs1) \<Rightarrow>
          (let metaPath = path_join [pkgDir, ''meta.json''];
               normalized = object_assign meta;
               tmp = metaPath @ ''.tmp-'' @ dec now
           in case fs_writeFile fs1 tmp (stringify normalized) of
                Inl e \<Rightarrow> (Inl e, fs1)
              | Inr fs2 \<Rightarrow> (Inr (tmp, metaPath), fs2)))"

definition writePackageMeta_rename :: "fs \<Rightarrow> string \<times> string \<Rightarrow> (error + string) \<times> fs" where
  "writePackageMeta_rename fs paths =
     (case fs_rename fs (fst paths) (snd paths) of
        Inl e \<Rightarrow> (Inl e, fs)
      | Inr fs1 \<Rightarrow> (Inr (snd paths), fs1))"

definition writePackageMeta ::
  "(json \<Rightarrow> string) \<Rightarrow> nat \<Rightarrow> fs \<Rightarrow> string \<Rightarrow> string \<Rightarrow> json \<Rightarrow> (error + string) \<times> fs" where
  "writePackageMeta stringify now fs base pkg meta =
     (case writePackageMeta_tmp stringify now fs base pkg meta of
        (Inl e, fs1) \<Rightarrow> (Inl e, fs1)
      | (Inr paths, fs1) \<Rightarrow> writePackageMeta_rename fs1 paths)"

text \<open>
  \<^verbatim>\<open>packages[pkgName] = value\<close> on the object literal of \<^verbatim>\<open>listAllPackages\<close>: an ordinary
  assignment, which for the name \<^verbatim>\<open>__proto__\<close> creates no own property unless there is one.
\<close>

definition assign_prop :: "string \<Rightarrow> json \<Rightarrow> (string \<times> json) list \<Rightarrow> (string \<times> json) list" where
  "assign_prop k v ps =
     (if k = ''__proto__'' \<and> map_of ps k = None then ps else set_prop k v ps)"

definition emptyDescriptor :: "string \<Rightarrow> json" where
  "emptyDescriptor name = JObj [(''name'', JStr name), (''versions'', JObj [])]"

fun listLoop ::
  "(string \<Rightarrow> json option) \<Rightarrow> fs \<Rightarrow> string \<Rightarrow> (string \<times> bool) list \<Rightarrow>
   (string \<times> json) list \<Rightarrow> error + (string \<times> json) list" where
  "listLoop parse fs base [] packages = Inr packages"
| "listLoop parse fs base (dirent # entries) packages =
     (if \<not> snd dirent then listLoop parse fs base entries packages
      else case readPackageMeta parse fs base (fst dirent) of
             Inl e \<Rightarrow> Inl e
           | Inr meta \<Rightarrow>
               listLoop parse fs base entries
                 (assign_prop (fst dirent)
                    (if truthy meta then meta else emptyDescriptor (fst dirent)) packages))"

definition listAllPackages :: "(string \<Rightarrow> json option) \<Rightarrow> fs \<Rightarrow> string \<Rightarrow> (string \<times> json) list" where
  "listAllPackages parse fs base =
     (case (case fs_readdir fs (path_join [base, ''packages'']) of
              Inl e \<Rightarrow> Inl e
            | Inr entries \<Rightarrow> listLoop parse fs base entries [])
      of Inl err \<Rightarrow> []
       | Inr packages \<Rightarrow> packages)"

definition saveTarball :: "fs \<Rightarrow> string \<Rightarrow> string \<Rightarrow> string \<Rightarrow> string \<Rightarrow> (error + string) \<times> fs" where
  "saveTarball fs base pkg filename buffer =
     (case ensurePackageDir fs base pkg of
        (Inl e, fs1) \<Rightarrow> (Inl e, fs1)
      | (Inr pkgDir, fs1) \<Rightarrow>
          (let tarDir = path_join [pkgDir, ''tarballs''];
               safeName = sanitizeFilename filename;
               outPath = path_join [tarDir, safeName]
           in case fs_writeFile fs1 outPath buffer of
                Inl e \<Rightarrow> (Inl e, fs1)
              | Inr fs2 \<Rightarrow> (Inr outPath, fs2)))"

definition getTarballPath :: "fs \<Rightarrow> string \<Rightarrow> string \<Rightarrow> string \<Rightarrow> string option" where
  "getTarballPath fs base pkg filename =
     (let pkgDir = path_join [base, ''packages'', sanitizePkgName pkg];
          outPath = path_join [pkgDir, ''tarballs'', sanitizeFilename filename]
      in case fs_access fs outPath of Inl e \<Rightarrow> None | Inr u \<Rightarrow> Some outPath)"

section \<open>lib/auth.js and server.js\<close>

text \<open>
  A request is answered with a status and a JSON body by a handler of the server, or with a
  bare status by a middleware that rejects it. An error caught by a handler's \<^verbatim>\<open>catch\<close> is
  answered with status 500 and the text of the error, kept here as the error itself.
\<close>

datatype reply = Reply nat json | Rejected nat | Failure error

text \<open>
  What a request carries, by its content type: nothing; a text of type
  \<^verbatim>\<open>application/json\<close>; a form that \<^verbatim>\<open>express.urlencoded\<close> accepts, given as the object it is
  parsed to; a multipart form whose field \<^verbatim>\<open>file\<close> the \<^verbatim>\<open>multer\<close> middleware of the upload
  route accepts, given as the bytes of that field; or bytes of another type, which stay on
  the request's stream. \<^verbatim>\<open>req_limited\<close> says that the rate limiter has counted its maximum of
  500 requests from the client in the current window of 15 minutes. The middlewares
  \<^verbatim>\<open>helmet\<close>, \<^verbatim>\<open>cors\<close> and \<^verbatim>\<open>morgan\<close> set headers and write the log; they answer no \<^verbatim>\<open>PUT\<close>
  request and are left out.
\<close>

datatype payload =
    NoPayload
  | JsonPayload string
  | FormPayload "(string \<times> json) list"
  | FilePayload string
  | RawPayload string

record request =
  req_authorization :: "string option"
  req_protocol :: string
  req_host :: string
  req_payload :: payload
  req_limited :: bool

text \<open>
  \<^verbatim>\<open>app.use(express.json({ limit: "1mb" }))\<close> and \<^verbatim>\<open>app.use(express.urlencoded(...))\<close>
  (Express 4) set \<^verbatim>\<open>req.body\<close> before any route: the empty object unless a body is parsed.
  The JSON parser is strict: a text over the limit is rejected with 413, and a text whose
  first character after white space is neither a brace nor a bracket, or that does not
  parse, with 400. The result is the body of the request or the status of the rejection.
\<close>

definition json_space :: "char \<Rightarrow> bool" where
  "json_space c \<longleftrightarrow> c \<in> set [CHR 0x20, CHR 0x09, CHR 0x0A, CHR 0x0D]"

definition first_char :: "string \<Rightarrow> char option" where
  "first_char t = (case dropWhile json_space t of [] \<Rightarrow> None | c # r \<Rightarrow> Some c)"

fun bodyParsers :: "(string \<Rightarrow> json option) \<Rightarrow> payload \<Rightarrow> nat + json" where
  "bodyParsers parse (JsonPayload t) =
     (if t = [] then Inr (JObj [])
      else if 1048576 < byte_length t then Inl 413
      else if first_char t \<noteq> Some CHR ''{'' \<and> first_char t \<noteq> Some CHR ''['' then Inl 400
      else case parse t of None \<Rightarrow> Inl 400 | Some v \<Rightarrow> Inr v)"
| "bodyParsers parse (FormPayload ps) = Inr (JObj ps)"
| "bodyParsers parse p = Inr (JObj [])"

definition is_space :: "char \<Rightarrow> bool" where
  "is_space c \<longleftrightarrow> (of_char c :: nat) \<in> set [9, 10, 11, 12, 13, 32, 160]"

definition trim :: "string \<Rightarrow> string" where
  "trim s = rev (dropWhile is_space (rev (dropWhile is_space s)))"

text \<open>\<^verbatim>\<open>authMiddleware(token)\<close>: \<^const>\<open>None\<close> is the call of \<^verbatim>\<open>next()\<close>.\<close>

definition authMiddleware :: "string \<Rightarrow> request \<Rightarrow> reply option" where
  "authMiddleware token req =
     (let auth = (case req_authorization req of None \<Rightarrow> [] | Some a \<Rightarrow> a) in
      if token = [] then None
      else if take 7 auth \<noteq> ''Bearer '' then
        Some (Reply 401 (JObj [(''error'', JStr ''unauthorized''), (''reason'', JStr ''missing Bearer token'')]))
      else let supplied = trim (drop 7 auth) in
        if supplied = [] \<or> supplied \<noteq> token then
          Some (Reply 403 (JObj [(''error'', JStr ''forbidden''), (''reason'', JStr ''invalid token'')]))
        else None)"

text \<open>\<^verbatim>\<open>!body || typeof body !== "object"\<close>.\<close>

fun invalid_body :: "json \<Rightarrow> bool" where
  "invalid_body (JObj ps) = False"
| "invalid_body (JArr xs) = False"
| "invalid_body v = True"

text \<open>The handler of \<^verbatim>\<open>PUT /:pkg\<close>, publishing the metadata of a package.\<close>

definition putPackage_handler ::
  "(json \<Rightarrow> string) \<Rightarrow> nat \<Rightarrow> string \<Rightarrow> string \<Rightarrow> json \<Rightarrow> string \<Rightarrow> fs \<Rightarrow> reply \<times> fs" where
  "putPackage_handler stringify now uuid base body pkg fs =
     (if invalid_body body then
        (Reply 400 (JObj [(''error'', JStr ''invalid_body''), (''reason'', JStr ''expected JSON metadata'')]), fs)
      else
        (case ensurePackageDir fs base pkg of
           (Inl e, fs1) \<Rightarrow> (Failure e, fs1)
         | (Inr d, fs1) \<Rightarrow>
             (case writePackageMeta stringify now fs1 base pkg body of
                (Inl e, fs2) \<Rightarrow> (Failure e, fs2)
              | (Inr p, fs2) \<Rightarrow>
                  (Reply 201 (JObj [(''ok'', JBool True), (''id'', JStr uuid)]), fs2))))"

text \<open>
  A request \<^verbatim>\<open>PUT /:pkg\<close> as the server answers it: the body parsers, the rate limiter, the
  authorization check of the route, and the handler.
\<close>

definition putPackage ::
  "(string \<Rightarrow> json option) \<Rightarrow> (json \<Rightarrow> string) \<Rightarrow> nat \<Rightarrow> string \<Rightarrow> string \<Rightarrow> string \<Rightarrow> request \<Rightarrow>
   string \<Rightarrow> fs \<Rightarrow> reply \<times> fs" where
  "putPackage parse stringify now uuid token base req pkg fs =
     (case bodyParsers parse (req_payload req) of
        Inl status \<Rightarrow> (Rejected status, fs)
      | Inr body \<Rightarrow>
          if req_limited req then (Rejected 429, fs)
          else (case authMiddleware token req of
                  Some r \<Rightarrow> (r, fs)
                | None \<Rightarrow> putPackage_handler stringify now uuid base body pkg fs))"

text \<open>
  The body of the upload handler that binds the tarball to a version, lines 132 to 138 of
  server.js, as a function from the descriptor read to the descriptor handed to
  \<^verbatim>\<open>writePackageMeta\<close>. The module is an ES module, so an assignment to a property of a
  primitive value throws a \<^verbatim>\<open>TypeError\<close>. A property assigned on an array under a name that
  is no index, or on an object that is inherited, is not among the properties that
  \<^verbatim>\<open>JSON.stringify\<close> writes, and the value is returned as it was. The built-in prototypes
  are those of a process that has just started: what an earlier request may have assigned
  on an inherited object is not part of the model.
\<close>

text \<open>\<^verbatim>\<open>d.tarball = url\<close> for the value \<^verbatim>\<open>d\<close> of \<^verbatim>\<open>dist\<close>.\<close>

fun assign_tarball :: "json \<Rightarrow> json \<Rightarrow> error + json" where
  "assign_tarball url (JObj ps) = Inr (JObj (assign_prop ''tarball'' url ps))"
| "assign_tarball url (JArr xs) = Inr (JArr xs)"
| "assign_tarball url v = Inl TypeError"

text \<open>\<^verbatim>\<open>r.dist = r.dist || {}; r.dist.tarball = url\<close> for a version record \<^verbatim>\<open>r\<close>.\<close>

fun assign_dist :: "json \<Rightarrow> json \<Rightarrow> error + json" where
  "assign_dist url (JObj ps) =
     (case assign_tarball url (or_empty (map_of ps ''dist'')) of
        Inl e \<Rightarrow> Inl e
      | Inr d \<Rightarrow> Inr (JObj (assign_prop ''dist'' d ps)))"
| "assign_dist url (JArr xs) = Inr (JArr xs)"
| "assign_dist url v = Inl TypeError"

text \<open>
  \<^verbatim>\<open>vs[version] = vs[version] || {}\<close> and the two assignments on \<^verbatim>\<open>vs[version]\<close>, for the
  value \<^verbatim>\<open>vs\<close> of \<^verbatim>\<open>meta.versions\<close> and the property key \<^verbatim>\<open>k\<close> of the version.
\<close>

fun assign_version :: "json \<Rightarrow> string \<Rightarrow> json \<Rightarrow> error + json" where
  "assign_version url k (JObj ps) =
     (if map_of ps k = None \<and> k \<in> set object_prototype_names then Inr (JObj ps)
      else case assign_dist url (or_empty (map_of ps k)) of
             Inl e \<Rightarrow> Inl e
           | Inr r \<Rightarrow> Inr (JObj (assign_prop k r ps)))"
| "assign_version url k (JArr xs) =
     (case array_index k of
        Some i \<Rightarrow>
          (if i < length xs then
             (case assign_dist url (or_empty (Some (xs ! i))) of
                Inl e \<Rightarrow> Inl e
              | Inr r \<Rightarrow> Inr (JArr (xs[i := r])))
           else
             (case assign_dist url (JObj []) of
                Inl e \<Rightarrow> Inl e
              | Inr r \<Rightarrow> Inr (JArr (xs @ replicate (i - length xs) JNull @ [r]))))
      | None \<Rightarrow>
          if k = ''length'' then Inl (if xs = [] then RangeError else TypeError)
          else Inr (JArr xs))"
| "assign_version url k v = Inl TypeError"

text \<open>
  \<^verbatim>\<open>meta["dist-tags"] && meta["dist-tags"].latest ? meta["dist-tags"].latest : "0.0.0"\<close>.
  None of the names read here is inherited by an object, an array or a string.
\<close>

definition resolveVersion :: "(string \<times> json) list \<Rightarrow> json" where
  "resolveVersion meta =
     (case map_of meta ''dist-tags'' of
        None \<Rightarrow> JStr ''0.0.0''
      | Some tags \<Rightarrow>
          if truthy tags then
            (case map_of (own_props tags) ''latest'' of
               None \<Rightarrow> JStr ''0.0.0''
             | Some latest \<Rightarrow> if truthy latest then latest else JStr ''0.0.0'')
          else JStr ''0.0.0'')"

definition tarballUrl :: "request \<Rightarrow> string \<Rightarrow> string \<Rightarrow> string" where
  "tarballUrl req pkg filename =
     req_protocol req @ ''://'' @ req_host req @ ''/'' @ encodeURIComponent pkg @ ''/-/'' @
     encodeURIComponent filename"

definition bindTarball :: "string \<Rightarrow> json \<Rightarrow> json \<Rightarrow> error + json" where
  "bindTarball pkg url read =
     (let meta0 = (if truthy read then read else emptyDescriptor pkg) in
      case meta0 of
        JBool b \<Rightarrow> Inl TypeError
      | JNum t \<Rightarrow> Inl TypeError
      | JStr s \<Rightarrow> Inl TypeError
      | JNull \<Rightarrow> Inl TypeError
      | _ \<Rightarrow>
        (let versions = or_empty (map_of (own_props meta0) ''versions'');
             meta1 = assign_prop ''versions'' versions (own_props meta0);
             version = resolveVersion meta1
         in case assign_version url (to_string version) versions of
              Inl e \<Rightarrow> Inl e
            | Inr vs \<Rightarrow> Inr (JObj (assign_prop ''versions'' vs meta1))))"

text \<open>
  The tarball of an upload: the buffer of the \<^verbatim>\<open>file\<close> field, or else the bytes read from the
  request's stream, which are none when a body parser has read the stream before.
\<close>

definition dataBuffer :: "request \<Rightarrow> string option" where
  "dataBuffer req =
     (case req_payload req of
        FilePayload buffer \<Rightarrow> Some buffer
      | RawPayload raw \<Rightarrow> if raw = [] then None else Some raw
      | _ \<Rightarrow> None)"

text \<open>The handler of \<^verbatim>\<open>PUT /:pkg/-/:filename\<close>, uploading a tarball.\<close>

definition putTarball_handler ::
  "(string \<Rightarrow> json option) \<Rightarrow> (json \<Rightarrow> string) \<Rightarrow> nat \<Rightarrow> string \<Rightarrow> request \<Rightarrow>
   string \<Rightarrow> string \<Rightarrow> fs \<Rightarrow> reply \<times> fs" where
  "putTarball_handler parse stringify now base req pkg filename fs =
     (case dataBuffer req of
        None \<Rightarrow>
          (Reply 400 (JObj [(''error'', JStr ''no_tarball''), (''reason'', JStr ''no tarball body received'')]), fs)
      | Some buffer \<Rightarrow>
          (case ensurePackageDir fs base pkg of
             (Inl e, fs1) \<Rightarrow> (Failure e, fs1)
           | (Inr d, fs1) \<Rightarrow>
               (case saveTarball fs1 base pkg filename buffer of
                  (Inl e, fs2) \<Rightarrow> (Failure e, fs2)
                | (Inr saved, fs2) \<Rightarrow>
                    (case readPackageMeta parse fs2 base pkg of
                       Inl e \<Rightarrow> (Failure e, fs2)
                     | Inr read \<Rightarrow>
                         (case bindTarball pkg (JStr (tarballUrl req pkg filename)) read of
                            Inl e \<Rightarrow> (Failure e, fs2)
                          | Inr meta \<Rightarrow>
                              (case writePackageMeta stringify now fs2 base pkg meta of
                                 (Inl e, fs3) \<Rightarrow> (Failure e, fs3)
                               | (Inr p, fs3) \<Rightarrow>
                                   (Reply 201 (JObj [(''ok'', JBool True), (''filename'', JStr filename)]),
                                    fs3)))))))"

text \<open>
  A request \<^verbatim>\<open>PUT /:pkg/-/:filename\<close> as the server answers it: the body parsers, the rate
  limiter, the authorization check of the route, and the handler.
\<close>

definition putTarball ::
  "(string \<Rightarrow> json option) \<Rightarrow> (json \<Rightarrow> string) \<Rightarrow> nat \<Rightarrow> string \<Rightarrow> string \<Rightarrow> request \<Rightarrow>
   string \<Rightarrow> string \<Rightarrow> fs \<Rightarrow> reply \<times> fs" where
  "putTarball parse stringify now token base req pkg filename fs =
     (case bodyParsers parse (req_payload req) of
        Inl status \<Rightarrow> (Rejected status, fs)
      | Inr body \<Rightarrow>
          if req_limited req then (Rejected 429, fs)
          else (case authMiddleware token req of
                  Some r \<Rightarrow> (r, fs)
                | None \<Rightarrow> putTarball_handler parse stringify now base req pkg filename fs))"

section \<open>Keys of the store's files\<close>

text \<open>
  A plain segment is a file name that path joining keeps as it is. The directory of a
  package has the key \<open>pkgKey\<close>; the sanitized name of a tarball gives one segment below
  the directory \<^verbatim>\<open>tarballs\<close>, or none when it is empty or a single dot.
\<close>

definition plain_seg :: "string \<Rightarrow> bool" where
  "plain_seg x \<longleftrightarrow> x \<noteq> [] \<and> x \<noteq> ''.'' \<and> x \<noteq> ''..'' \<and> CHR ''/'' \<notin> set x"

definition pkgKey :: "string \<Rightarrow> string \<Rightarrow> string list" where
  "pkgKey base pkg = fs_key (path_join [base, ''packages'', sanitizePkgName pkg])"

definition fileSegs :: "string \<Rightarrow> string list" where
  "fileSegs filename = filter (\<lambda>x. x \<noteq> [] \<and> x \<noteq> ''.'') [sanitizeFilename filename]"

text \<open>
  A store that does not block the writes of a package: no file stands at or above the
  place of its \<^verbatim>\<open>tarballs\<close> directory. A tarball name is proper when its sanitized form is a
  name below that directory.
\<close>

definition no_file_on :: "fs \<Rightarrow> string list \<Rightarrow> bool" where
  "no_file_on fs k \<longleftrightarrow>
     list_all (\<lambda>p. case node_at fs p of Some (File c) \<Rightarrow> False | _ \<Rightarrow> True) (prefixes k)"

definition is_dir :: "fs \<Rightarrow> string \<Rightarrow> bool" where
  "is_dir fs p \<longleftrightarrow> node_at fs (fs_key p) = Some Dir"

definition package_unblocked :: "fs \<Rightarrow> string \<Rightarrow> string \<Rightarrow> bool" where
  "package_unblocked fs base pkg \<longleftrightarrow>
     no_file_on fs (pkgKey base pkg @ [''tarballs''])"

definition proper_filename :: "string \<Rightarrow> bool" where
  "proper_filename filename \<longleftrightarrow> fileSegs filename \<noteq> []"

text \<open>
  A path that the file system accepts: it has no NUL code unit, is shorter than 4096 bytes,
  and none of its names is longer than 255 bytes. The paths handed to the file system for
  the directories of a package, by a write of its descriptor at the time \<open>now\<close>, and by the
  upload of a tarball.
\<close>

definition valid_path :: "string \<Rightarrow> bool" where
  "valid_path p \<longleftrightarrow> path_error p = None \<and> \<not> list_ex long_name (fs_key p)"

definition directory_paths :: "string \<Rightarrow> string \<Rightarrow> string list" where
  "directory_paths base pkg = [packageDir base pkg, path_join [packageDir base pkg, ''tarballs'']]"

definition descriptor_paths :: "string \<Rightarrow> string \<Rightarrow> nat \<Rightarrow> string list" where
  "descriptor_paths base pkg now =
     directory_paths base pkg @ [tmpPath base pkg now, metaPath base pkg]"

definition upload_paths :: "string \<Rightarrow> string \<Rightarrow> string \<Rightarrow> nat \<Rightarrow> string list" where
  "upload_paths base pkg filename now =
     tarballPath base pkg filename # descriptor_paths base pkg now"

section \<open>URL escaping as the specification has it\<close>

text \<open>
  The locator of a tarball holds the URL-escaped package name and filename. A text is an
  escaped form of a string when it is made of unreserved characters and percent escapes only
  and decoding it gives the string: an escape \<^verbatim>\<open>%XX\<close> is the byte with the hexadecimal
  value \<^verbatim>\<open>XX\<close>, and the bytes are read as UTF-8 (one byte for a code unit below 128, two for
  one from 128 to 255).
\<close>

definition hex_value :: "char \<Rightarrow> nat option" where
  "hex_value c = map_of (zip ''0123456789ABCDEFabcdef'' ([0..<16] @ [10..<16])) c"

fun url_unescape :: "string \<Rightarrow> string option" where
  "url_unescape [] = Some []"
| "url_unescape (c # r) =
     (if c \<noteq> CHR ''%'' then map_option (Cons c) (url_unescape r)
      else case r of
        h1 # h2 # r1 \<Rightarrow>
          (case (hex_value h1, hex_value h2) of
             (Some a, Some b) \<Rightarrow>
               if 16 * a + b < 128 then map_option (Cons (char_of (16 * a + b))) (url_unescape r1)
               else if 16 * a + b = 194 \<or> 16 * a + b = 195 then
                 (case r1 of
                    p # h3 # h4 # r2 \<Rightarrow>
                      (case (hex_value h3, hex_value h4) of
                         (Some a', Some b') \<Rightarrow>
                           if p = CHR ''%'' \<and> 128 \<le> 16 * a' + b' \<and> 16 * a' + b' < 192
                           then map_option (Cons (char_of (64 * (16 * a + b - 192) + (16 * a' + b' - 128))))
                                  (url_unescape r2)
                           else None
                       | _ \<Rightarrow> None)
                  | _ \<Rightarrow> None)
               else None
           | _ \<Rightarrow> None)
      | _ \<Rightarrow> None)"

definition url_escaped :: "string \<Rightarrow> string \<Rightarrow> bool" where
  "url_escaped e s \<longleftrightarrow>
     list_all (\<lambda>c. uri_unreserved c \<or> c = CHR ''%'') e \<and> url_unescape e = Some s"

section \<open>The JSON functions of the runtime in examples\<close>

text \<open>
  Where an example needs the runtime's \<^verbatim>\<open>JSON.stringify(v, null, 2)\<close> and \<^verbatim>\<open>JSON.parse\<close>,
  they are given by the table of the texts of the documents of the example. A text that
  is not in the table stands for one that does not parse.
\<close>

definition table_stringify :: "(json \<times> string) list \<Rightarrow> json \<Rightarrow> string" where
  "table_stringify tbl v = (case map_of tbl v of Some s \<Rightarrow> s | None \<Rightarrow> [])"

definition table_parse :: "(json \<times> string) list \<Rightarrow> string \<Rightarrow> json option" where
  "table_parse tbl s = map_of (map (\<lambda>e. (snd e, fst e)) tbl) s"

text \<open>The value at a path of property names in a document.\<close>

fun json_at :: "json \<Rightarrow> string list \<Rightarrow> json option" where
  "json_at v [] = Some v"
| "json_at (JObj ps) (k # ks) = (case map_of ps k of None \<Rightarrow> None | Some w \<Rightarrow> json_at w ks)"
| "json_at v (k # ks) = None"

text \<open>The store after the descriptors of \<^verbatim>\<open>a\<close> and \<^verbatim>\<open>@scope/b\<close> were written below \<^verbatim>\<open>/srv\<close>.\<close>

definition two_packages :: "string \<Rightarrow> string \<Rightarrow> fs" where
  "two_packages a b =
     [([''/'', ''srv'', ''packages'', ''@scope'', ''b'', ''meta.json''], File b),
      ([''/'', ''srv'', ''packages'', ''@scope'', ''b'', ''tarballs''], Dir),
      ([''/'', ''srv'', ''packages'', ''@scope'', ''b''], Dir),
      ([''/'', ''srv'', ''packages'', ''@scope''], Dir),
      ([''/'', ''srv'', ''packages'', ''a'', ''meta.json''], File a),
      ([''/'', ''srv'', ''packages'', ''a'', ''tarballs''], Dir),
      ([''/'', ''srv'', ''packages'', ''a''], Dir),
      ([''/'', ''srv'', ''packages''], Dir),
      ([''/'', ''srv''], Dir)]"

section \<open>Descriptors of the data model\<close>

text \<open>
  A descriptor of the specification's data model: an object whose \<^verbatim>\<open>dist-tags\<close>, if there, is
  an object of strings, and whose \<^verbatim>\<open>versions\<close>, if there, is an object of version records,
  each an object whose \<^verbatim>\<open>dist\<close>, if there, is an object.
\<close>

fun record_ok :: "json \<Rightarrow> bool" where
  "record_ok (JObj rps) =
     (case map_of rps ''dist'' of None \<Rightarrow> True | Some (JObj dps) \<Rightarrow> True | Some v \<Rightarrow> False)"
| "record_ok v = False"

fun is_string :: "json \<Rightarrow> bool" where
  "is_string (JStr s) = True"
| "is_string v = False"

fun tags_ok :: "json option \<Rightarrow> bool" where
  "tags_ok None = True"
| "tags_ok (Some (JObj ts)) = list_all (\<lambda>e. is_string (snd e)) ts"
| "tags_ok (Some v) = False"

fun versions_ok :: "json option \<Rightarrow> bool" where
  "versions_ok None = True"
| "versions_ok (Some (JObj vps)) = list_all (\<lambda>e. record_ok (snd e)) vps"
| "versions_ok (Some v) = False"

fun well_formed_descriptor :: "json \<Rightarrow> bool" where
  "well_formed_descriptor (JObj ps) \<longleftrightarrow>
     tags_ok (map_of ps ''dist-tags'') \<and> versions_ok (map_of ps ''versions'')"
| "well_formed_descriptor v \<longleftrightarrow> False"

text \<open>
  The version key of an upload as the amended claim C5 words it: the \<^verbatim>\<open>latest\<close> tag of the
  descriptor when it is a non-empty string, and \<^verbatim>\<open>0.0.0\<close> otherwise.
\<close>

definition spec_version_key :: "json \<Rightarrow> string" where
  "spec_version_key d =
     (case json_at d [''dist-tags'', ''latest''] of
        Some (JStr s) \<Rightarrow> if s = [] then ''0.0.0'' else s
      | _ \<Rightarrow> ''0.0.0'')"

section \<open>The documents of the examples\<close>

text \<open>
  An upload of \<^verbatim>\<open>left-pad-1.0.0.tgz\<close> for the package \<^verbatim>\<open>left-pad\<close> that has no descriptor
  yet, one of \<^verbatim>\<open>left pad-1.0.0.tgz\<close> for the package \<^verbatim>\<open>@scope/left-pad\<close>, and an upload for a
  package \<^verbatim>\<open>p\<close> whose \<^verbatim>\<open>latest\<close> tag is \<^verbatim>\<open>2.1.0\<close>: the request, the descriptors, and the
  texts \<^verbatim>\<open>JSON.stringify(d, null, 2)\<close> of the descriptors.
\<close>

definition upload_request :: request where
  "upload_request =
     \<lparr>req_authorization = Some ''Bearer secret'', req_protocol = ''http'',
      req_host = ''localhost:4873'', req_payload = RawPayload ''tarball bytes'',
      req_limited = False\<rparr>"

definition left_pad_doc :: json where
  "left_pad_doc =
     JObj
      [(''name'', JStr ''left-pad''),
       (''versions'', JObj
        [(''0.0.0'', JObj
          [(''dist'', JObj
            [(''tarball'', JStr ''http://localhost:4873/left-pad/-/left-pad-1.0.0.tgz'')])])])]"

definition left_pad_text :: string where
  "left_pad_text =
     ''{\<newline>'' @
     ''  \"name\": \"left-pad\",\<newline>'' @
     ''  \"versions\": {\<newline>'' @
     ''    \"0.0.0\": {\<newline>'' @
     ''      \"dist\": {\<newline>'' @
     ''        \"tarball\": \"http://localhost:4873/left-pad/-/left-pad-1.0.0.tgz\"\<newline>'' @
     ''      }\<newline>'' @
     ''    }\<newline>'' @
     ''  }\<newline>'' @
     ''}''"

definition scoped_doc :: json where
  "scoped_doc =
     JObj
      [(''name'', JStr ''@scope/left-pad''),
       (''versions'', JObj
        [(''0.0.0'', JObj
          [(''dist'', JObj
            [(''tarball'',
              JStr ''http://localhost:4873/%40scope%2Fleft-pad/-/left%20pad-1.0.0.tgz'')])])])]"

definition scoped_text :: string where
  "scoped_text =
     ''{\<newline>'' @
     ''  \"name\": \"@scope/left-pad\",\<newline>'' @
     ''  \"versions\": {\<newline>'' @
     ''    \"0.0.0\": {\<newline>'' @
     ''      \"dist\": {\<newline>'' @
     ''        \"tarball\": \"http://localhost:4873/%40scope%2Fleft-pad/-/left%20pad-1.0.0.tgz\"\<newline>'' @
     ''      }\<newline>'' @
     ''    }\<newline>'' @
     ''  }\<newline>'' @
     ''}''"

definition tagged_doc :: json where
  "tagged_doc =
     JObj
      [(''name'', JStr ''p''),
       (''dist-tags'', JObj [(''latest'', JStr ''2.1.0'')]),
       (''versions'', JObj [(''2.1.0'', JObj [(''name'', JStr ''p''), (''version'', JStr ''2.1.0'')])])]"

definition tagged_text :: string where
  "tagged_text =
     ''{\<newline>'' @
     ''  \"name\": \"p\",\<newline>'' @
     ''  \"dist-tags\": {\<newline>'' @
     ''    \"latest\": \"2.1.0\"\<newline>'' @
     ''  },\<newline>'' @
     ''  \"versions\": {\<newline>'' @
     ''    \"2.1.0\": {\<newline>'' @
     ''      \"name\": \"p\",\<newline>'' @
     ''      \"version\": \"2.1.0\"\<newline>'' @
     ''    }\<newline>'' @
     ''  }\<newline>'' @
     ''}''"

definition tagged_doc_bound :: json where
  "tagged_doc_bound =
     JObj
      [(''name'', JStr ''p''),
       (''dist-tags'', JObj [(''latest'', JStr ''2.1.0'')]),
       (''versions'', JObj
        [(''2.1.0'', JObj
          [(''name'', JStr ''p''),
           (''version'', JStr ''2.1.0''),
           (''dist'', JObj [(''tarball'', JStr ''http://localhost:4873/p/-/p-2.1.0.tgz'')])])])]"

definition tagged_text_bound :: string where
  "tagged_text_bound =
     ''{\<newline>'' @
     ''  \"name\": \"p\",\<newline>'' @
     ''  \"dist-tags\": {\<newline>'' @
     ''    \"latest\": \"2.1.0\"\<newline>'' @
     ''  },\<newline>'' @
     ''  \"versions\": {\<newline>'' @
     ''    \"2.1.0\": {\<newline>'' @
     ''      \"name\": \"p\",\<newline>'' @
     ''      \"version\": \"2.1.0\",\<newline>'' @
     ''      \"dist\": {\<newline>'' @
     ''        \"tarball\": \"http://localhost:4873/p/-/p-2.1.0.tgz\"\<newline>'' @
     ''      }\<newline>'' @
     ''    }\<newline>'' @
     ''  }\<newline>'' @
     ''}''"

definition tagged_store :: fs where
  "tagged_store =
     [([''/'', ''srv'', ''packages'', ''p'', ''meta.json''], File tagged_text),
      ([''/'', ''srv'', ''packages'', ''p'', ''tarballs''], Dir),
      ([''/'', ''srv'', ''packages'', ''p''], Dir),
      ([''/'', ''srv'', ''packages''], Dir),
      ([''/'', ''srv''], Dir)]"

section \<open>Properties of the sanitizers\<close>

lemma has_dotdot_Cons:
  "has_dotdot (a # xs) \<longleftrightarrow> (a = CHR ''.'' \<and> (\<exists>ys. xs = CHR ''.'' # ys)) \<or> has_dotdot xs"
  by (cases xs) auto

lemma remove_dotdot_nondot: "b \<noteq> CHR ''.'' \<Longrightarrow> remove_dotdot (b # s) = b # remove_dotdot s"
  by (cases s) auto

lemma remove_dotdot_no_dotdot: "\<not> has_dotdot (remove_dotdot s)"
proof (induction s rule: remove_dotdot.induct)
  case (1 a b s)
  show ?case
  proof (cases "a = CHR ''.'' \<and> b = CHR ''.''")
    case True
    with 1 show ?thesis by simp
  next
    case False
    with 1 have ih: "\<not> has_dotdot (remove_dotdot (b # s))" by simp
    show ?thesis
    proof (cases "b = CHR ''.''")
      case True
      with False have "a \<noteq> CHR ''.''" by simp
      with ih False show ?thesis by (simp add: has_dotdot_Cons)
    next
      case nb: False
      with ih False show ?thesis
        by (simp add: has_dotdot_Cons remove_dotdot_nondot)
    qed
  qed
qed simp_all

lemma has_dotdot_map:
  assumes "\<And>c. f c = CHR ''.'' \<longleftrightarrow> c = CHR ''.''"
  shows "has_dotdot (map f s) = has_dotdot s"
  by (induction s rule: has_dotdot.induct) (simp_all add: assms)

lemma remove_dotdot_id: "\<not> has_dotdot s \<Longrightarrow> remove_dotdot s = s"
  by (induction s rule: remove_dotdot.induct) auto

lemma sanitizePkgName_no_dotdot: "\<not> has_dotdot (sanitizePkgName s)"
  unfolding sanitizePkgName_def
  by (subst has_dotdot_map) (auto simp: pkg_char_ok_def remove_dotdot_no_dotdot)

lemma sanitizeFilename_no_dotdot: "\<not> has_dotdot (sanitizeFilename s)"
  unfolding sanitizeFilename_def
  by (subst has_dotdot_map) (auto simp: remove_dotdot_no_dotdot)

section \<open>Properties of path joining\<close>

lemma split_path_nonempty [simp]: "split_path s \<noteq> []"
  by (induction s) (auto split: list.splits)

lemma split_path_append:
  "split_path (a @ CHR ''/'' # b) = split_path a @ split_path b"
  by (induction a) (auto split: list.splits)

lemma split_path_snoc_slash: "split_path (a @ ''/'') = split_path a @ [[]]"
  using split_path_append [of a "[]"] by simp

lemma split_path_no_slash: "x \<in> set (split_path s) \<Longrightarrow> CHR ''/'' \<notin> set x"
  by (induction s arbitrary: x) (auto split: list.splits if_splits)

lemma split_path_single: "CHR ''/'' \<notin> set x \<Longrightarrow> split_path x = [x]"
  by (induction x) auto

lemma split_path_joinSep:
  "segs \<noteq> [] \<Longrightarrow> \<forall>x\<in>set segs. CHR ''/'' \<notin> set x \<Longrightarrow> split_path (joinSep segs) = segs"
proof (induction segs rule: joinSep.induct)
  case (3 x y r)
  then show ?case by (simp add: split_path_append split_path_single)
qed (simp_all add: split_path_single)

lemma nfr_step:
  "nfr allow st \<Longrightarrow> CHR ''/'' \<notin> set seg \<Longrightarrow> nfr allow (normalizeStep allow st seg)"
  by (cases st) (auto simp: normalizeStep_def seg_ok_def)

lemma nfr_foldl:
  "nfr allow st \<Longrightarrow> \<forall>x\<in>set xs. CHR ''/'' \<notin> set x \<Longrightarrow> nfr allow (foldl (normalizeStep allow) st xs)"
  by (induction xs arbitrary: st) (auto simp: nfr_step)

lemma nfr_normalizeString: "nfr allow (rev (normalizeString allow p))"
  unfolding normalizeString_def
  by (simp add: nfr_foldl split_path_no_slash)

lemma fwd_ok_foldl:
  "fwd_ok allow st xs \<Longrightarrow> foldl (normalizeStep allow) st xs = rev xs @ st"
proof (induction xs arbitrary: st)
  case (Cons x xs)
  then have "normalizeStep allow st x = x # st"
    by (cases st) (auto simp: normalizeStep_def seg_ok_def)
  with Cons show ?case by simp
qed simp

lemma fwd_ok_snoc:
  "fwd_ok allow st (xs @ [x]) \<longleftrightarrow>
     fwd_ok allow st xs \<and> seg_ok x \<and>
     (x = ''..'' \<longrightarrow> allow \<and> (rev xs @ st = [] \<or> hd (rev xs @ st) = ''..''))"
  by (induction xs arbitrary: st) auto

lemma nfr_fwd_ok: "nfr allow R \<Longrightarrow> fwd_ok allow [] (rev R)"
proof (induction R)
  case (Cons t ts)
  then have ih: "fwd_ok allow [] (rev ts)" and ok: "seg_ok t"
    and dd: "t = ''..'' \<longrightarrow> allow \<and> (\<forall>u\<in>set ts. u = ''..'')" by simp_all
  have "t = ''..'' \<longrightarrow> allow \<and> (ts = [] \<or> hd ts = ''..'')"
    using dd by (cases ts) simp_all
  with ih ok show ?case by (simp add: fwd_ok_snoc)
qed simp

lemma refold:
  assumes "nfr allow R"
  shows "foldl (normalizeStep allow) [] (rev R) = R"
  using fwd_ok_foldl [OF nfr_fwd_ok [OF assms]] by simp

lemma nfr_no_slash: "nfr allow R \<Longrightarrow> \<forall>x\<in>set R. CHR ''/'' \<notin> set x"
  by (induction R) (auto simp: seg_ok_def)

lemma step_empty [simp]: "normalizeStep allow st [] = st"
  by (simp add: normalizeStep_def)

lemma step_dot [simp]: "normalizeStep allow st ''.'' = st"
  by (simp add: normalizeStep_def)

lemma joinSep_nonempty: "segs \<noteq> [] \<Longrightarrow> \<forall>x\<in>set segs. x \<noteq> [] \<Longrightarrow> joinSep segs \<noteq> []"
  by (induction segs rule: joinSep.induct) auto

lemma hd_joinSep: "segs \<noteq> [] \<Longrightarrow> hd segs \<noteq> [] \<Longrightarrow> hd (joinSep segs) = hd (hd segs)"
  by (induction segs rule: joinSep.induct) auto

lemma nfr_seg_ok: "nfr allow R \<Longrightarrow> \<forall>x\<in>set R. seg_ok x"
  by (induction R) auto

lemma normalized_shape:
  fixes p :: string
  defines "R \<equiv> normalizeString (\<not> isAbsolute p) p"
  assumes "p \<noteq> []"
  shows "normalize p =
     (if R = [] then (if isAbsolute p then ''/'' else if last p = CHR ''/'' then ''./'' else ''.'')
      else (if isAbsolute p then ''/'' else []) @ joinSep R @ (if last p = CHR ''/'' then ''/'' else []))"
    and "\<forall>x\<in>set R. seg_ok x"
    and "nfr (\<not> isAbsolute p) (rev R)"
proof -
  show nf: "nfr (\<not> isAbsolute p) (rev R)" unfolding R_def by (rule nfr_normalizeString)
  show ok: "\<forall>x\<in>set R. seg_ok x" using nfr_seg_ok [OF nf] by simp
  have "R \<noteq> [] \<Longrightarrow> joinSep R \<noteq> []"
    using ok by (intro joinSep_nonempty) (auto simp: seg_ok_def)
  moreover have "R = [] \<Longrightarrow> joinSep R = []" by simp
  ultimately show "normalize p =
     (if R = [] then (if isAbsolute p then ''/'' else if last p = CHR ''/'' then ''./'' else ''.'')
      else (if isAbsolute p then ''/'' else []) @ joinSep R @ (if last p = CHR ''/'' then ''/'' else []))"
    using assms(2) unfolding normalize_def Let_def R_def [symmetric] by (cases "R = []") simp_all
qed

lemma isAbsolute_normalize: "isAbsolute (normalize p) = isAbsolute p"
proof (cases "p = []")
  case True
  then show ?thesis by (simp add: normalize_def isAbsolute_def)
next
  case False
  define R where "R = normalizeString (\<not> isAbsolute p) p"
  note sh = normalized_shape [OF False, folded R_def]
  show ?thesis
  proof (cases "R = []")
    case True
    then show ?thesis using sh(1) by (simp add: isAbsolute_def)
  next
    case ne: False
    then have "hd R \<noteq> []" "CHR ''/'' \<notin> set (hd R)"
      using sh(2) by (cases R; simp add: seg_ok_def)+
    then have "hd (joinSep R) \<noteq> CHR ''/''"
      using hd_joinSep [OF ne] by (cases "hd R") auto
    moreover have "joinSep R \<noteq> []"
      using ne sh(2) by (intro joinSep_nonempty) (auto simp: seg_ok_def)
    ultimately show ?thesis using sh(1) ne by (auto simp: isAbsolute_def)
  qed
qed

lemma foldl_dirs:
  "foldl (normalizeStep allow) st ((if a then [[]] else []) @ xs @ (if t then [[]] else [])) =
   foldl (normalizeStep allow) st xs"
  by simp

lemma foldl_normalize:
  "foldl (normalizeStep (\<not> isAbsolute p)) [] (split_path (normalize p)) =
   foldl (normalizeStep (\<not> isAbsolute p)) [] (split_path p)"
proof (cases "p = []")
  case True
  then show ?thesis by (simp add: normalize_def)
next
  case False
  define R where "R = normalizeString (\<not> isAbsolute p) p"
  note sh = normalized_shape [OF False, folded R_def]
  have fold_p: "foldl (normalizeStep (\<not> isAbsolute p)) [] (split_path p) = rev R"
    by (simp add: R_def normalizeString_def)
  show ?thesis
  proof (cases "R = []")
    case True
    then show ?thesis using sh(1) fold_p by simp
  next
    case ne: False
    have sl: "\<forall>x\<in>set R. CHR ''/'' \<notin> set x" using sh(2) by (simp add: seg_ok_def)
    have sp: "split_path (joinSep R) = R"
      using split_path_joinSep [OF ne sl] .
    have "split_path (normalize p) =
        (if isAbsolute p then [[]] else []) @ R @ (if last p = CHR ''/'' then [[]] else [])"
    proof -
      have "split_path (''/'' @ joinSep R @ ''/'') = [[]] @ R @ [[]]"
        using sp split_path_snoc_slash [of "CHR ''/'' # joinSep R"] by simp
      moreover have "split_path (''/'' @ joinSep R) = [[]] @ R" using sp by simp
      moreover have "split_path (joinSep R @ ''/'') = R @ [[]]"
        using sp split_path_snoc_slash [of "joinSep R"] by simp
      ultimately show ?thesis using sh(1) ne sp by simp
    qed
    then have "foldl (normalizeStep (\<not> isAbsolute p)) [] (split_path (normalize p)) =
        foldl (normalizeStep (\<not> isAbsolute p)) [] R"
      by (simp only: foldl_dirs)
    also have "\<dots> = rev R" using refold [OF sh(3)] by simp
    finally show ?thesis using fold_p by simp
  qed
qed

lemma components_normalize: "components (normalize p) = components p"
  by (simp add: components_def normalizeString_def isAbsolute_normalize foldl_normalize)

lemma split_path_joinSep_concat:
  "parts \<noteq> [] \<Longrightarrow> split_path (joinSep parts) = concat (map split_path parts)"
  by (induction parts rule: joinSep.induct) (simp_all add: split_path_append)

lemma foldl_drop_empty_args:
  "foldl (normalizeStep allow) st (concat (map split_path (filter (\<lambda>a. a \<noteq> []) args))) =
   foldl (normalizeStep allow) st (concat (map split_path args))"
  by (induction args arbitrary: st) simp_all

lemma isAbsolute_path_join:
  "isAbsolute (path_join args) = isAbsolute (joinSep (filter (\<lambda>a. a \<noteq> []) args))"
  by (simp add: path_join_def Let_def isAbsolute_normalize) (simp add: isAbsolute_def)

lemma components_path_join:
  "components (path_join args) =
   rev (foldl (normalizeStep (\<not> isAbsolute (joinSep (filter (\<lambda>a. a \<noteq> []) args)))) []
          (concat (map split_path args)))"
proof (cases "filter (\<lambda>a. a \<noteq> []) args = []")
  case True
  have "foldl (normalizeStep allow) [] (concat (map split_path args)) = []" for allow
    using foldl_drop_empty_args [of allow "[]" args] True by simp
  with True show ?thesis
    by (simp add: path_join_def components_def normalizeString_def isAbsolute_def)
next
  case False
  then show ?thesis
    by (simp add: path_join_def Let_def components_normalize)
       (simp add: components_def normalizeString_def split_path_joinSep_concat foldl_drop_empty_args)
qed

lemma foldl_no_parent:
  "''..'' \<notin> set xs \<Longrightarrow>
   foldl (normalizeStep allow) st xs = rev (filter (\<lambda>x. x \<noteq> [] \<and> x \<noteq> ''.'') xs) @ st"
  by (induction xs arbitrary: st) (auto simp: normalizeStep_def)

lemma hd_split_path: "hd (split_path s) = takeWhile (\<lambda>c. c \<noteq> CHR ''/'') s"
  by (induction s) (auto split: list.splits)


lemma split_path_no_dotdot:
  "\<not> has_dotdot s \<Longrightarrow> x \<in> set (split_path s) \<Longrightarrow> \<not> has_dotdot x"
proof (induction s arbitrary: x)
  case Nil
  then show ?case by simp
next
  case (Cons c s)
  from Cons.prems(1) have nd: "\<not> has_dotdot s"
    and nb: "\<not> (c = CHR ''.'' \<and> (\<exists>ys. s = CHR ''.'' # ys))"
    by (simp_all add: has_dotdot_Cons)
  show ?case
  proof (cases "c = CHR ''/''")
    case True
    with Cons.prems(2) Cons.IH [OF nd] show ?thesis by auto
  next
    case False
    obtain y ys where sp: "split_path s = y # ys" by (cases "split_path s") simp_all
    then have y: "y = takeWhile (\<lambda>c. c \<noteq> CHR ''/'') s" using hd_split_path [of s] by simp
    have "\<not> has_dotdot (c # y)"
    proof -
      have "\<not> has_dotdot y" using Cons.IH [OF nd, of y] sp by simp
      moreover have "\<not> (c = CHR ''.'' \<and> (\<exists>zs. y = CHR ''.'' # zs))"
        using nb y by (cases s) (auto split: if_splits)
      ultimately show ?thesis by (simp add: has_dotdot_Cons)
    qed
    moreover have "z \<in> set ys \<Longrightarrow> \<not> has_dotdot z" for z
      using Cons.IH [OF nd, of z] sp by simp
    ultimately show ?thesis using Cons.prems(2) False sp by auto
  qed
qed

lemma no_parent_segment: "\<not> has_dotdot s \<Longrightarrow> ''..'' \<notin> set (split_path s)"
  using split_path_no_dotdot [of s "''..''"] by auto

lemma components_below:
  assumes "\<not> has_dotdot k" and "d \<noteq> []" and "\<not> isAbsolute d" and "''..'' \<notin> set (split_path d)"
  shows "components (path_join [base, d, k]) =
         components base @ filter (\<lambda>x. x \<noteq> [] \<and> x \<noteq> ''.'') (split_path d @ split_path k)"
    and "isAbsolute (path_join [base, d, k]) = isAbsolute base"
proof -
  have ab: "isAbsolute (joinSep (filter (\<lambda>a. a \<noteq> []) [base, d, k])) = isAbsolute base"
    using assms(2,3) by (cases base; cases d) (auto simp: isAbsolute_def)
  then show "isAbsolute (path_join [base, d, k]) = isAbsolute base"
    by (simp only: isAbsolute_path_join)
  have "''..'' \<notin> set (split_path d @ split_path k)"
    using assms(4) no_parent_segment [OF assms(1)] by simp
  then show "components (path_join [base, d, k]) =
         components base @ filter (\<lambda>x. x \<noteq> [] \<and> x \<noteq> ''.'') (split_path d @ split_path k)"
    unfolding components_path_join ab
    by (simp add: foldl_no_parent components_def normalizeString_def)
qed

lemma path_join_nonempty: "path_join args \<noteq> []"
proof -
  have "normalize p \<noteq> []" for p
  proof (cases "p = []")
    case False
    show ?thesis using normalized_shape(1) [OF False] joinSep_nonempty [of "normalizeString (\<not> isAbsolute p) p"]
        normalized_shape(2) [OF False]
      by (auto simp: seg_ok_def)
  qed (simp add: normalize_def)
  then show ?thesis by (simp add: path_join_def Let_def)
qed

lemma components_join_nested:
  assumes "b \<noteq> []"
  shows "components (path_join [path_join [a, b], c]) = components (path_join [a, b, c])"
proof -
  let ?J = "path_join [a, b]"
  have ne: "?J \<noteq> []" by (rule path_join_nonempty)
  have ab1: "isAbsolute (joinSep (filter (\<lambda>a. a \<noteq> []) [?J, c])) = isAbsolute ?J"
    using ne by (cases ?J) (auto simp: isAbsolute_def)
  have ab2: "isAbsolute (joinSep (filter (\<lambda>a. a \<noteq> []) [a, b, c])) =
             isAbsolute (joinSep (filter (\<lambda>a. a \<noteq> []) [a, b]))"
    using assms by (cases a; cases b) (auto simp: isAbsolute_def)
  have "foldl (normalizeStep (\<not> isAbsolute ?J)) [] (split_path ?J) = rev (components ?J)"
    by (simp add: components_def normalizeString_def)
  then show ?thesis
    unfolding components_path_join [of "[?J, c]"] components_path_join [of "[a, b, c]"] ab1 ab2
    by (simp add: components_path_join [of "[a, b]"] isAbsolute_path_join)
qed

lemma isAbsolute_join_nested:
  "isAbsolute (path_join [path_join [a, b], c]) = isAbsolute (path_join [a, b])"
proof -
  obtain x xs where J: "path_join [a, b] = x # xs"
    using path_join_nonempty [of "[a, b]"] by (cases "path_join [a, b]") auto
  have "isAbsolute (path_join [x # xs, c]) = isAbsolute (x # xs)"
    unfolding isAbsolute_path_join by (simp add: isAbsolute_def)
  then show ?thesis by (simp add: J)
qed


lemma packageDir_components:
  "components (packageDir base pkg) =
     components base @ ''packages'' #
       filter (\<lambda>x. x \<noteq> [] \<and> x \<noteq> ''.'') (split_path (sanitizePkgName pkg))"
  "isAbsolute (packageDir base pkg) = isAbsolute base"
  unfolding packageDir_def
  using components_below [of "sanitizePkgName pkg" "''packages''" base]
  by (simp_all add: sanitizePkgName_no_dotdot isAbsolute_def)

section \<open>Resolved keys of joined paths\<close>

lemma joinSep_snoc_append:
  "R \<noteq> [] \<Longrightarrow> joinSep R @ s = joinSep (butlast R @ [last R @ s])"
  by (induction R rule: joinSep.induct) auto

lemma components_render:
  assumes nf: "nfr (\<not> ab) (rev R)" and ne: "R \<noteq> []"
  shows "components ((if ab then ''/'' else []) @ joinSep R) = R"
    and "isAbsolute ((if ab then ''/'' else []) @ joinSep R) = ab"
proof -
  let ?P = "(if ab then ''/'' else []) @ joinSep R"
  have ok: "\<forall>x\<in>set R. seg_ok x" using nfr_seg_ok [OF nf] by simp
  have j: "joinSep R \<noteq> []" using ne ok by (intro joinSep_nonempty) (auto simp: seg_ok_def)
  have "hd R \<noteq> []" "CHR ''/'' \<notin> set (hd R)" using ne ok by (cases R; simp add: seg_ok_def)+
  then have h: "hd (joinSep R) \<noteq> CHR ''/''" using hd_joinSep [OF ne] by (cases "hd R") auto
  show ab: "isAbsolute ?P = ab" using j h by (auto simp: isAbsolute_def)
  have sl: "\<forall>x\<in>set R. CHR ''/'' \<notin> set x" using ok by (simp add: seg_ok_def)
  have "split_path ?P = (if ab then [[]] else []) @ R"
    using split_path_joinSep [OF ne sl] by simp
  then have "foldl (normalizeStep (\<not> ab)) [] (split_path ?P) = foldl (normalizeStep (\<not> ab)) [] R"
    by simp
  also have "\<dots> = rev R" using refold [OF nf] by simp
  finally show "components ?P = R"
    unfolding components_def normalizeString_def ab by simp
qed

lemma path_join_pair:
  assumes "\<not> isAbsolute d" and "''..'' \<notin> set (split_path d)"
  shows "components (path_join [P, d]) = components P @ filter (\<lambda>x. x \<noteq> [] \<and> x \<noteq> ''.'') (split_path d)"
    and "isAbsolute (path_join [P, d]) = isAbsolute P"
proof -
  have ab: "isAbsolute (joinSep (filter (\<lambda>a. a \<noteq> []) [P, d])) = isAbsolute P"
    using assms(1) by (cases P; cases d) (auto simp: isAbsolute_def)
  then show "isAbsolute (path_join [P, d]) = isAbsolute P"
    by (simp only: isAbsolute_path_join)
  show "components (path_join [P, d]) = components P @ filter (\<lambda>x. x \<noteq> [] \<and> x \<noteq> ''.'') (split_path d)"
    unfolding components_path_join ab using assms(2)
    by (simp add: foldl_no_parent components_def normalizeString_def)
qed

lemma fs_key_join_pair:
  assumes "\<not> isAbsolute d" and "''..'' \<notin> set (split_path d)"
  shows "fs_key (path_join [P, d]) = fs_key P @ filter (\<lambda>x. x \<noteq> [] \<and> x \<noteq> ''.'') (split_path d)"
  by (simp add: fs_key_def path_join_pair [OF assms])



lemma join_seg:
  assumes "plain_seg seg"
  shows "components (path_join [P, seg]) = components P @ [seg]"
    and "isAbsolute (path_join [P, seg]) = isAbsolute P"
proof -
  have sp: "split_path seg = [seg]" using assms by (simp add: plain_seg_def split_path_single)
  have na: "\<not> isAbsolute seg" using assms by (cases seg) (auto simp: plain_seg_def isAbsolute_def)
  have np: "''..'' \<notin> set (split_path seg)" using assms unfolding sp plain_seg_def by auto
  show "components (path_join [P, seg]) = components P @ [seg]"
    using path_join_pair(1) [OF na np, of P] assms by (simp add: sp plain_seg_def)
  show "isAbsolute (path_join [P, seg]) = isAbsolute P"
    using path_join_pair(2) [OF na np, of P] .
qed

lemma fs_key_join_seg:
  "plain_seg seg \<Longrightarrow> fs_key (path_join [P, seg]) = fs_key P @ [seg]"
  by (simp add: fs_key_def join_seg)

lemma fs_key_join_seg_suffix:
  assumes seg: "plain_seg seg" and suf: "CHR ''/'' \<notin> set sfx"
  shows "fs_key (path_join [P, seg] @ sfx) = fs_key P @ [seg @ sfx]"
proof -
  define J where "J = joinSep (filter (\<lambda>a. a \<noteq> []) [P, seg])"
  have segne: "seg \<noteq> []" using seg by (simp add: plain_seg_def)
  have Jne: "J \<noteq> []" using segne by (cases P) (auto simp: J_def)
  have pj: "path_join [P, seg] = normalize J" using segne by (simp add: path_join_def J_def)
  have "last seg \<noteq> CHR ''/''"
    using last_in_set [OF segne] seg unfolding plain_seg_def by metis
  then have lastJ: "last J \<noteq> CHR ''/''" using segne by (cases P) (auto simp: J_def)
  define R where "R = normalizeString (\<not> isAbsolute J) J"
  have absJ: "isAbsolute J = isAbsolute P"
    using seg by (cases P; cases seg) (auto simp: J_def isAbsolute_def plain_seg_def)
  have "components (normalize J) = components P @ [seg]"
    using join_seg(1) [OF seg, of P] by (simp add: pj)
  then have R: "R = components P @ [seg]"
    unfolding components_normalize by (simp add: components_def R_def)
  then have Rne: "R \<noteq> []" by simp
  note sh = normalized_shape [OF Jne, folded R_def]
  have norm: "normalize J = (if isAbsolute P then ''/'' else []) @ joinSep R"
    using sh(1) Rne lastJ absJ by simp
  have "normalize J @ sfx = (if isAbsolute P then ''/'' else []) @ joinSep (butlast R @ [last R @ sfx])"
    unfolding norm using joinSep_snoc_append [OF Rne, of sfx] by simp
  also have "\<dots> = (if isAbsolute P then ''/'' else []) @ joinSep (components P @ [seg @ sfx])"
    by (simp add: R)
  finally have eq: "path_join [P, seg] @ sfx =
      (if isAbsolute P then ''/'' else []) @ joinSep (components P @ [seg @ sfx])"
    by (simp add: pj)
  have nfP: "nfr (\<not> isAbsolute P) (rev (components P))"
    unfolding components_def by (rule nfr_normalizeString)
  have "seg @ sfx \<noteq> ''..''" "seg @ sfx \<noteq> ''.''" "seg @ sfx \<noteq> []"
    using seg by (auto simp: plain_seg_def append_eq_Cons_conv)
  then have nf: "nfr (\<not> isAbsolute P) (rev (components P @ [seg @ sfx]))"
    using nfP seg suf by (simp add: seg_ok_def plain_seg_def)
  show ?thesis
    unfolding eq fs_key_def
    using components_render [OF nf] by simp
qed

section \<open>Effects of the file system calls\<close>

lemma node_at_Cons:
  "node_at ((k, n) # fs) k' = (if k' = [] \<or> k' = [''/''] then Some Dir else if k' = k then Some n else node_at fs k')"
  by (simp add: node_at_def)

lemma mkdir_from_keeps:
  "mkdir_from fs cur segs = (None, fs') \<Longrightarrow> node_at fs k = Some n \<Longrightarrow> node_at fs' k = Some n"
proof (induction segs arbitrary: fs cur)
  case (Cons s rest)
  show ?case
  proof (cases "node_at fs (cur @ [s])")
    case None
    with Cons.prems have "mkdir_from ((cur @ [s], Dir) # fs) (cur @ [s]) rest = (None, fs')"
      by (simp split: if_splits)
    moreover have "node_at ((cur @ [s], Dir) # fs) k = Some n"
      using Cons.prems(2) None by (auto simp: node_at_Cons node_at_def)
    ultimately show ?thesis by (rule Cons.IH)
  next
    case (Some nd)
    with Cons.prems show ?thesis by (cases nd) (auto intro: Cons.IH)
  qed
qed simp

lemma mkdir_from_frame:
  "mkdir_from fs cur segs = (None, fs') \<Longrightarrow> \<not> prefix k (cur @ segs) \<Longrightarrow> node_at fs' k = node_at fs k"
proof (induction segs arbitrary: fs cur)
  case (Cons s rest)
  have np: "\<not> prefix k ((cur @ [s]) @ rest)" using Cons.prems(2) by simp
  have ne: "k \<noteq> cur @ [s]" using Cons.prems(2) by auto
  show ?case
  proof (cases "node_at fs (cur @ [s])")
    case None
    with Cons.prems have "mkdir_from ((cur @ [s], Dir) # fs) (cur @ [s]) rest = (None, fs')"
      by (simp split: if_splits)
    from Cons.IH [OF this np] ne show ?thesis by (simp add: node_at_Cons) (simp add: node_at_def)
  next
    case (Some nd)
    with Cons.prems np show ?thesis by (cases nd) (auto dest: Cons.IH)
  qed
qed simp

lemma mkdir_from_dir:
  "mkdir_from fs cur segs = (None, fs') \<Longrightarrow> segs \<noteq> [] \<Longrightarrow> node_at fs' (cur @ segs) = Some Dir"
proof (induction segs arbitrary: fs cur)
  case (Cons s rest)
  show ?case
  proof (cases "node_at fs (cur @ [s])")
    case None
    with Cons.prems have mk: "mkdir_from ((cur @ [s], Dir) # fs) (cur @ [s]) rest = (None, fs')"
      by (simp split: if_splits)
    show ?thesis
    proof (cases "rest = []")
      case True
      with mk show ?thesis by (auto simp: node_at_Cons)
    next
      case False
      from Cons.IH [OF mk False] show ?thesis by simp
    qed
  next
    case (Some nd)
    show ?thesis
    proof (cases nd)
      case Dir
      with Some Cons.prems have mk: "mkdir_from fs (cur @ [s]) rest = (None, fs')"
      by (simp split: if_splits)
      show ?thesis
      proof (cases "rest = []")
        case True
        with mk Some Dir show ?thesis by auto
      next
        case False
        from Cons.IH [OF mk False] show ?thesis by simp
      qed
    next
      case (File d)
      with Some Cons.prems show ?thesis by simp
    qed
  qed
qed simp

lemma map_of_filter_other:
  "k' \<noteq> k \<Longrightarrow> map_of (filter (\<lambda>e. fst e \<noteq> k) fs) k' = map_of fs k'"
  by (induction fs) auto

lemma map_of_filter_same: "map_of (filter (\<lambda>e. fst e \<noteq> k) fs) k = None"
  by (induction fs) auto

lemma node_at_put_node:
  "k \<noteq> [] \<Longrightarrow> k \<noteq> [''/''] \<Longrightarrow>
   node_at (put_node k n fs) k' = (if k' = k then Some n else node_at fs k')"
  by (auto simp: node_at_def put_node_def map_of_filter_other)

lemma special_is_dir: "node_at fs k \<noteq> Some Dir \<Longrightarrow> k \<noteq> [] \<and> k \<noteq> [''/'']"
  by (auto simp: node_at_def)

lemma fs_writeFile_node:
  assumes "fs_writeFile fs p d = Inr fs'"
  shows "node_at fs' k = (if k = fs_key p then Some (File d) else node_at fs k)"
proof -
  have nd: "node_at fs (fs_key p) \<noteq> Some Dir"
    using assms by (auto simp: fs_writeFile_def Let_def split: option.splits)
  have "fs' = put_node (fs_key p) (File d) fs"
    using assms by (auto simp: fs_writeFile_def Let_def split: option.splits node.splits)
  then show ?thesis using special_is_dir [OF nd] by (simp add: node_at_put_node)
qed

lemma fs_rename_node:
  assumes "fs_rename fs a b = Inr fs'"
  shows "\<exists>d. node_at fs (fs_key a) = Some (File d) \<and>
     (\<forall>k. node_at fs' k =
        (if k = fs_key b then Some (File d) else if k = fs_key a then None else node_at fs k))"
proof -
  obtain d where src: "node_at fs (fs_key a) = Some (File d)"
    using assms by (auto simp: fs_rename_def Let_def split: option.splits node.splits)
  have nd: "node_at fs (fs_key b) \<noteq> Some Dir"
    using assms src by (auto simp: fs_rename_def Let_def split: option.splits)
  have fs': "fs' = put_node (fs_key b) (File d) (filter (\<lambda>e. fst e \<noteq> fs_key a) fs)"
    using assms src by (auto simp: fs_rename_def Let_def split: option.splits node.splits)
  have sa: "fs_key a \<noteq> [] \<and> fs_key a \<noteq> [''/'']" using src by (auto simp: node_at_def)
  have "node_at (filter (\<lambda>e. fst e \<noteq> fs_key a) fs) k =
      (if k = fs_key a then None else node_at fs k)" for k
    using sa by (auto simp: node_at_def map_of_filter_other map_of_filter_same)
  then show ?thesis using src special_is_dir [OF nd] by (auto simp: fs' node_at_put_node)
qed

lemma mkdir_from_succeeds:
  "(\<forall>i c. 0 < i \<and> i \<le> length segs \<longrightarrow> node_at fs (cur @ take i segs) \<noteq> Some (File c)) \<Longrightarrow>
   \<not> list_ex long_name segs \<Longrightarrow>
   \<exists>fs'. mkdir_from fs cur segs = (None, fs')"
proof (induction segs arbitrary: fs cur)
  case (Cons s rest)
  have short: "\<not> long_name s" "\<not> list_ex long_name rest" using Cons.prems(2) by auto
  have first: "\<And>c. node_at fs (cur @ [s]) \<noteq> Some (File c)"
    using Cons.prems(1) [rule_format, of 1] by simp
  have later: "node_at fs ((cur @ [s]) @ take i rest) \<noteq> Some (File c)"
    if "0 < i" "i \<le> length rest" for i c
    using Cons.prems(1) [rule_format, of "Suc i" c] that by simp
  show ?case
  proof (cases "node_at fs (cur @ [s])")
    case None
    have "\<forall>i c. 0 < i \<and> i \<le> length rest \<longrightarrow>
        node_at ((cur @ [s], Dir) # fs) ((cur @ [s]) @ take i rest) \<noteq> Some (File c)"
    proof (intro allI impI)
      fix i c assume i: "0 < i \<and> i \<le> length rest"
      then have "take i rest \<noteq> []" by (cases rest) auto
      then have "(cur @ [s]) @ take i rest \<noteq> cur @ [s]" by simp
      then show "node_at ((cur @ [s], Dir) # fs) ((cur @ [s]) @ take i rest) \<noteq> Some (File c)"
        using later [of i c] i by (auto simp: node_at_Cons)
    qed
    from Cons.IH [OF this short(2)] None short(1) show ?thesis by simp
  next
    case (Some n)
    with first have n: "n = Dir" by (cases n) auto
    have "\<forall>i c. 0 < i \<and> i \<le> length rest \<longrightarrow>
        node_at fs ((cur @ [s]) @ take i rest) \<noteq> Some (File c)"
      using later by blast
    from Cons.IH [OF this short(2)] Some n show ?thesis by simp
  qed
qed simp

lemma mkdir_from_files:
  "mkdir_from fs cur segs = (None, fs') \<Longrightarrow> node_at fs' k = Some (File c) \<Longrightarrow> node_at fs k = Some (File c)"
proof (induction segs arbitrary: fs cur)
  case (Cons s rest)
  show ?case
  proof (cases "node_at fs (cur @ [s])")
    case None
    with Cons.prems have "mkdir_from ((cur @ [s], Dir) # fs) (cur @ [s]) rest = (None, fs')"
      by (simp split: if_splits)
    from Cons.IH [OF this Cons.prems(2)] show ?thesis
      by (auto simp: node_at_Cons node_at_def split: if_splits)
  next
    case (Some nd)
    with Cons.prems show ?thesis by (cases nd) (auto dest: Cons.IH)
  qed
qed simp

section \<open>Effects of the storage functions\<close>

lemma digit_char_not_slash: "d < 10 \<Longrightarrow> digit_char d \<noteq> CHR ''/''"
proof
  assume d: "d < 10" and eq: "digit_char d = CHR ''/''"
  have "(of_char (digit_char d) :: nat) = 48 + d" using d by (simp add: digit_char_def)
  with eq show False by simp
qed

lemma dec_no_slash: "CHR ''/'' \<notin> set (dec n)"
proof (induction n rule: dec.induct)
  case (1 n)
  show ?case
  proof (cases "n < 10")
    case True
    then show ?thesis using digit_char_not_slash [of n] by (subst dec.simps) auto
  next
    case False
    have "n mod 10 < 10" by simp
    then have "digit_char (n mod 10) \<noteq> CHR ''/''" by (rule digit_char_not_slash)
    with False 1 show ?thesis by (subst dec.simps) auto
  qed
qed

lemma plain_tarballs: "plain_seg ''tarballs''" and plain_meta: "plain_seg ''meta.json''"
  by (simp_all add: plain_seg_def)

lemma key_tarDir:
  "fs_key (path_join [path_join [base, ''packages'', sanitizePkgName pkg], ''tarballs'']) =
   pkgKey base pkg @ [''tarballs'']"
  by (simp add: pkgKey_def fs_key_join_seg plain_tarballs)

lemma key_metaPath: "fs_key (metaPath base pkg) = pkgKey base pkg @ [''meta.json'']"
  by (simp add: metaPath_def pkgKey_def fs_key_join_seg plain_meta)

lemma key_tmpPath: "fs_key (tmpPath base pkg now) = pkgKey base pkg @ [''meta.json.tmp-'' @ dec now]"
  unfolding tmpPath_def metaPath_def pkgKey_def
  using fs_key_join_seg_suffix [OF plain_meta, of "''.tmp-'' @ dec now"] dec_no_slash [of now]
  by simp

lemma sanitizeFilename_no_slash: "CHR ''/'' \<notin> set (sanitizeFilename f)"
  by (auto simp: sanitizeFilename_def)



lemma key_outPath:
  "fs_key (path_join [path_join [path_join [base, ''packages'', sanitizePkgName pkg], ''tarballs''],
                      sanitizeFilename filename]) =
   pkgKey base pkg @ ''tarballs'' # fileSegs filename"
proof -
  let ?sf = "sanitizeFilename filename"
  have sp: "split_path ?sf = [?sf]" by (rule split_path_single) (rule sanitizeFilename_no_slash)
  have na: "\<not> isAbsolute ?sf"
    using sanitizeFilename_no_slash [of filename] by (cases ?sf) (auto simp: isAbsolute_def)
  have np: "''..'' \<notin> set (split_path ?sf)"
    by (rule no_parent_segment) (rule sanitizeFilename_no_dotdot)
  show ?thesis
    using fs_key_join_pair [OF na np] by (simp add: key_tarDir sp fileSegs_def)
qed

lemma fs_key_join_nested:
  assumes "b \<noteq> []"
  shows "fs_key (path_join [a, b, c]) = fs_key (path_join [path_join [a, b], c])"
proof -
  have "isAbsolute (path_join [a, b, c]) = isAbsolute (path_join [a, b])"
    unfolding isAbsolute_path_join using assms by (cases a; cases b) (auto simp: isAbsolute_def)
  then show ?thesis
    by (simp add: fs_key_def components_join_nested [OF assms] isAbsolute_join_nested)
qed

lemma key_getPath:
  "fs_key (path_join [path_join [base, ''packages'', sanitizePkgName pkg], ''tarballs'',
                      sanitizeFilename filename]) =
   pkgKey base pkg @ ''tarballs'' # fileSegs filename"
  by (subst fs_key_join_nested) (simp_all add: key_outPath)

lemma normalize_cong:
  assumes "p \<noteq> []" and "q \<noteq> []"
    and "isAbsolute p = isAbsolute q" and "components p = components q"
    and "(last p = CHR ''/'') = (last q = CHR ''/'')"
  shows "normalize p = normalize q"
  using assms unfolding normalize_def components_def Let_def by simp

lemma path_join_nested:
  assumes b: "b \<noteq> []" and c: "c \<noteq> []"
  shows "path_join [path_join [a, b], c] = path_join [a, b, c]"
proof -
  define J where "J = path_join [a, b]"
  define P where "P = joinSep (filter (\<lambda>x. x \<noteq> []) [J, c])"
  define Q where "Q = joinSep (filter (\<lambda>x. x \<noteq> []) [a, b, c])"
  have J: "J \<noteq> []" unfolding J_def by (rule path_join_nonempty)
  have P: "P = J @ CHR ''/'' # c" unfolding P_def using J c by simp
  have Q: "Q = (if a = [] then b @ CHR ''/'' # c else a @ CHR ''/'' # b @ CHR ''/'' # c)"
    unfolding Q_def using b c by simp
  have l: "path_join [J, c] = normalize P" unfolding P_def using J c by (simp add: path_join_def)
  have r: "path_join [a, b, c] = normalize Q" unfolding Q_def using b c by (simp add: path_join_def)
  have ne: "P \<noteq> []" "Q \<noteq> []" by (simp_all add: P Q)
  have "isAbsolute (path_join [a, b, c]) = isAbsolute (path_join [a, b])"
    unfolding isAbsolute_path_join using b by (cases a; cases b) (auto simp: isAbsolute_def)
  then have "isAbsolute (path_join [J, c]) = isAbsolute (path_join [a, b, c])"
    unfolding J_def using isAbsolute_join_nested [of a b c] by simp
  then have ab: "isAbsolute P = isAbsolute Q" by (simp add: l r isAbsolute_normalize)
  have "components (path_join [J, c]) = components (path_join [a, b, c])"
    unfolding J_def by (rule components_join_nested [OF b])
  then have co: "components P = components Q" by (simp add: l r components_normalize)
  have la: "last P = last Q" using c by (simp add: P Q)
  have "normalize P = normalize Q" by (rule normalize_cong [OF ne ab co]) (simp add: la)
  then show ?thesis by (simp add: l [unfolded J_def] r)
qed

lemma pkgKey_nonempty: "pkgKey base pkg \<noteq> []"
  using packageDir_components(1) [of base pkg]
  by (simp add: pkgKey_def fs_key_def packageDir_def)

lemma ensurePackageDir_ok:
  assumes "ensurePackageDir fs base pkg = (Inr d, fs1)"
  shows "d = path_join [base, ''packages'', sanitizePkgName pkg]"
    and "node_at fs1 (pkgKey base pkg @ [''tarballs'']) = Some Dir"
    and "node_at fs k = Some n \<Longrightarrow> node_at fs1 k = Some n"
    and "\<not> prefix k (pkgKey base pkg @ [''tarballs'']) \<Longrightarrow> node_at fs1 k = node_at fs k"
proof -
  let ?pd = "path_join [base, ''packages'', sanitizePkgName pkg]"
  obtain fsa where m1: "mkdir_from fs [] (pkgKey base pkg) = (None, fsa)"
    and m2: "mkdir_from fsa [] (pkgKey base pkg @ [''tarballs'']) = (None, fs1)"
    and d: "d = ?pd"
    using assms
    by (auto simp: ensurePackageDir_def Let_def fs_mkdir_def key_tarDir pkgKey_def [symmetric]
        split: option.splits prod.splits)
  show "d = ?pd" by (rule d)
  show "node_at fs1 (pkgKey base pkg @ [''tarballs'']) = Some Dir"
    using mkdir_from_dir [OF m2] by simp
  show "node_at fs k = Some n \<Longrightarrow> node_at fs1 k = Some n"
    using mkdir_from_keeps [OF m1] mkdir_from_keeps [OF m2] by blast
  assume np: "\<not> prefix k (pkgKey base pkg @ [''tarballs''])"
  then have "\<not> prefix k (pkgKey base pkg)" by (meson prefix_order.trans prefixI)
  then show "node_at fs1 k = node_at fs k"
    using mkdir_from_frame [OF m1, of k] mkdir_from_frame [OF m2, of k] np by simp
qed

lemma saveTarball_ok:
  assumes "saveTarball fs base pkg filename buffer = (Inr p, fs2)"
  shows "p = tarballPath base pkg filename"
    and "fs_key p = pkgKey base pkg @ ''tarballs'' # fileSegs filename"
    and "fileSegs filename \<noteq> []"
    and "node_at fs2 k =
           (if k = pkgKey base pkg @ ''tarballs'' # fileSegs filename then Some (File buffer)
            else if prefix k (pkgKey base pkg @ [''tarballs'']) then node_at fs2 k
            else node_at fs k)"
    and "node_at fs k = Some n \<Longrightarrow> k \<noteq> fs_key p \<Longrightarrow> node_at fs2 k = Some n"
    and "path_error p = None"
proof -
  let ?pd = "path_join [base, ''packages'', sanitizePkgName pkg]"
  let ?out = "path_join [path_join [?pd, ''tarballs''], sanitizeFilename filename]"
  obtain d fs1 where en: "ensurePackageDir fs base pkg = (Inr d, fs1)"
    using assms by (auto simp: saveTarball_def split: prod.splits sum.splits)
  note e = ensurePackageDir_ok [OF en]
  have wr: "fs_writeFile fs1 ?out buffer = Inr fs2" and p: "p = ?out"
    using assms en e(1) by (auto simp: saveTarball_def Let_def split: sum.splits)
  show "p = tarballPath base pkg filename" by (simp add: p tarballPath_def packageDir_def)
  show key: "fs_key p = pkgKey base pkg @ ''tarballs'' # fileSegs filename"
    by (simp add: p key_outPath)
  note w = fs_writeFile_node [OF wr, unfolded key_outPath]
  show ne: "fileSegs filename \<noteq> []"
  proof
    assume "fileSegs filename = []"
    then have "node_at fs1 (fs_key ?out) = Some Dir" using e(2) by (simp add: key_outPath)
    then show False using wr by (simp add: fs_writeFile_def Let_def split: option.splits)
  qed
  have np: "\<not> prefix (pkgKey base pkg @ ''tarballs'' # fileSegs filename) (pkgKey base pkg @ [''tarballs''])"
    using ne by (auto simp: prefix_def)
  show "node_at fs2 k =
           (if k = pkgKey base pkg @ ''tarballs'' # fileSegs filename then Some (File buffer)
            else if prefix k (pkgKey base pkg @ [''tarballs'']) then node_at fs2 k
            else node_at fs k)"
    using w e(4) [of k] by simp
  show "node_at fs k = Some n \<Longrightarrow> k \<noteq> fs_key p \<Longrightarrow> node_at fs2 k = Some n"
    using w e(3) [of k n] key by simp
  show "path_error p = None"
    using wr unfolding p by (simp add: fs_writeFile_def split: option.splits)
qed

lemma tmp_neq_meta: "pkgKey base pkg @ [''meta.json.tmp-'' @ dec now] \<noteq> pkgKey base pkg @ [''meta.json'']"
  by simp

lemma writePackageMeta_ok:
  assumes "writePackageMeta stringify now fs base pkg meta = (Inr p, fs3)"
  shows "p = metaPath base pkg"
    and "node_at fs3 (pkgKey base pkg @ [''meta.json'']) = Some (File (stringify (object_assign meta)))"
    and "node_at fs k = Some n \<Longrightarrow> k \<noteq> pkgKey base pkg @ [''meta.json''] \<Longrightarrow>
         k \<noteq> pkgKey base pkg @ [''meta.json.tmp-'' @ dec now] \<Longrightarrow> node_at fs3 k = Some n"
    and "path_error (metaPath base pkg) = None"
proof -
  let ?pd = "path_join [base, ''packages'', sanitizePkgName pkg]"
  let ?mp = "path_join [?pd, ''meta.json'']"
  let ?tmp = "?mp @ ''.tmp-'' @ dec now"
  obtain d fs1 where en: "ensurePackageDir fs base pkg = (Inr d, fs1)"
    using assms
    by (auto simp: writePackageMeta_def writePackageMeta_tmp_def split: prod.splits sum.splits)
  note e = ensurePackageDir_ok [OF en]
  obtain fs2 where wr: "fs_writeFile fs1 ?tmp (stringify (object_assign meta)) = Inr fs2"
    and rn: "fs_rename fs2 ?tmp ?mp = Inr fs3" and p: "p = ?mp"
    using assms en e(1)
    by (auto simp: writePackageMeta_def writePackageMeta_tmp_def writePackageMeta_rename_def Let_def
        split: sum.splits)
  have kt: "fs_key ?tmp = pkgKey base pkg @ [''meta.json.tmp-'' @ dec now]"
    using key_tmpPath [of base pkg now] by (simp add: tmpPath_def metaPath_def)
  have km: "fs_key ?mp = pkgKey base pkg @ [''meta.json'']"
    using key_metaPath [of base pkg] by (simp add: metaPath_def)
  note w = fs_writeFile_node [OF wr, unfolded kt]
  from fs_rename_node [OF rn, unfolded kt km] obtain c where
    src: "node_at fs2 (pkgKey base pkg @ [''meta.json.tmp-'' @ dec now]) = Some (File c)" and
    r: "\<And>k. node_at fs3 k =
        (if k = pkgKey base pkg @ [''meta.json''] then Some (File c)
         else if k = pkgKey base pkg @ [''meta.json.tmp-'' @ dec now] then None else node_at fs2 k)"
    by blast
  have c: "c = stringify (object_assign meta)" using src w by simp
  show "p = metaPath base pkg" by (simp add: p metaPath_def)
  show "node_at fs3 (pkgKey base pkg @ [''meta.json'']) = Some (File (stringify (object_assign meta)))"
    using r c by simp
  show "node_at fs k = Some n \<Longrightarrow> k \<noteq> pkgKey base pkg @ [''meta.json''] \<Longrightarrow>
         k \<noteq> pkgKey base pkg @ [''meta.json.tmp-'' @ dec now] \<Longrightarrow> node_at fs3 k = Some n"
    using r [of k] w [of k] e(3) [of k n] by simp
  show "path_error (metaPath base pkg) = None"
    using rn unfolding metaPath_def by (simp add: fs_rename_def split: option.splits)
qed

lemma readPackageMeta_cong:
  "node_at fs' (pkgKey base pkg @ [''meta.json'']) = node_at fs (pkgKey base pkg @ [''meta.json'']) \<Longrightarrow>
   readPackageMeta parse fs' base pkg = readPackageMeta parse fs base pkg"
  by (simp add: readPackageMeta_def readPackageMeta_try_def fs_readFile_def key_metaPath
      split: option.splits node.splits)

lemma meta_not_under_tarballs:
  "\<not> prefix (pkgKey base pkg @ [''meta.json'']) (pkgKey base pkg @ [''tarballs''])"
  by simp

lemma authMiddleware_rejects:
  "authMiddleware token req = Some r \<Longrightarrow> \<exists>body. r = Reply 401 body \<or> r = Reply 403 body"
  by (auto simp: authMiddleware_def Let_def split: if_splits)

lemma putTarball_handled:
  assumes "putTarball parse stringify now token base req pkg filename fs = (Reply 201 b, fs')"
  shows "putTarball_handler parse stringify now base req pkg filename fs = (Reply 201 b, fs')"
proof (cases "authMiddleware token req")
  case None
  with assms show ?thesis by (auto simp: putTarball_def split: sum.splits if_splits)
next
  case (Some r)
  with authMiddleware_rejects [OF Some] assms show ?thesis
    by (auto simp: putTarball_def split: sum.splits if_splits)
qed

lemma putTarball_created:
  assumes "putTarball parse stringify now token base req pkg filename fs = (Reply 201 b, fs')"
  shows "\<exists>buffer read meta p.
     dataBuffer req = Some buffer \<and>
     readPackageMeta parse fs base pkg = Inr read \<and>
     bindTarball pkg (JStr (tarballUrl req pkg filename)) read = Inr meta \<and>
     fs_readFile fs' (metaPath base pkg) = Inr (stringify (object_assign meta)) \<and>
     getTarballPath fs' base pkg filename = Some p \<and>
     fs_readFile fs' p = Inr buffer"
proof -
  let ?url = "JStr (tarballUrl req pkg filename)"
  let ?MK = "pkgKey base pkg @ [''meta.json'']"
  let ?OK = "pkgKey base pkg @ ''tarballs'' # fileSegs filename"
  note assms = putTarball_handled [OF assms]
  from assms obtain buffer where buf: "dataBuffer req = Some buffer"
    by (auto simp: putTarball_handler_def split: option.splits)
  from assms buf obtain d fs1 where en: "ensurePackageDir fs base pkg = (Inr d, fs1)"
    by (auto simp: putTarball_handler_def split: option.splits prod.splits sum.splits)
  from assms buf en obtain saved fs2 where sv: "saveTarball fs1 base pkg filename buffer = (Inr saved, fs2)"
    by (auto simp: putTarball_handler_def split: option.splits prod.splits sum.splits)
  from assms buf en sv obtain read where rd: "readPackageMeta parse fs2 base pkg = Inr read"
    by (auto simp: putTarball_handler_def split: option.splits prod.splits sum.splits)
  from assms buf en sv rd obtain meta where bd: "bindTarball pkg ?url read = Inr meta"
    by (auto simp: putTarball_handler_def split: option.splits prod.splits sum.splits)
  from assms buf en sv rd bd obtain p where wr: "writePackageMeta stringify now fs2 base pkg meta = (Inr p, fs')"
    by (auto simp: putTarball_handler_def split: option.splits prod.splits sum.splits)
  note e = ensurePackageDir_ok [OF en]
  note s = saveTarball_ok [OF sv]
  note w = writePackageMeta_ok [OF wr]
  have ne: "?MK \<noteq> ?OK" using s(3) by (cases "fileSegs filename") auto
  have "node_at fs2 ?MK = node_at fs1 ?MK"
    using s(4) [of ?MK] ne by simp
  also have "\<dots> = node_at fs ?MK" using e(4) [of ?MK] by simp
  finally have "readPackageMeta parse fs2 base pkg = readPackageMeta parse fs base pkg"
    by (rule readPackageMeta_cong)
  with rd have rd0: "readPackageMeta parse fs base pkg = Inr read" by simp
  have out2: "node_at fs2 ?OK = Some (File buffer)" using s(4) [of ?OK] by simp
  have "?OK \<noteq> pkgKey base pkg @ [''meta.json.tmp-'' @ dec now]"
    using s(3) by (cases "fileSegs filename") auto
  with w(3) [OF out2] ne have out3: "node_at fs' ?OK = Some (File buffer)" by simp
  have m3: "fs_readFile fs' (metaPath base pkg) = Inr (stringify (object_assign meta))"
    using w(2) w(4) by (simp add: fs_readFile_def key_metaPath)
  define flat where "flat =
    path_join [path_join [base, ''packages'', sanitizePkgName pkg], ''tarballs'', sanitizeFilename filename]"
  have sf: "sanitizeFilename filename \<noteq> []" using s(3) by (auto simp: fileSegs_def)
  have "tarballPath base pkg filename = flat"
    unfolding tarballPath_def packageDir_def flat_def by (rule path_join_nested) (simp_all add: sf)
  then have pe: "path_error flat = None" using s(1) s(6) by simp
  have kf: "fs_key flat = ?OK" unfolding flat_def by (rule key_getPath)
  have g: "getTarballPath fs' base pkg filename = Some flat"
    using out3 pe kf unfolding getTarballPath_def Let_def flat_def [symmetric]
    by (simp add: fs_access_def)
  have "fs_readFile fs' flat = Inr buffer"
    using out3 pe kf by (simp add: fs_readFile_def)
  with buf rd0 bd m3 g show ?thesis by blast
qed

lemma readPackageMeta_total: "\<exists>v. readPackageMeta parse fs base pkg = Inr v"
  by (simp add: readPackageMeta_def split: sum.splits)

lemma no_file_on_iff:
  "no_file_on fs k \<longleftrightarrow> (\<forall>p c. prefix p k \<longrightarrow> node_at fs p \<noteq> Some (File c))"
  by (auto simp: no_file_on_def list_all_iff in_set_prefixes split: option.splits node.splits)

lemma no_file_on_prefix: "no_file_on fs k \<Longrightarrow> prefix k' k \<Longrightarrow> no_file_on fs k'"
  unfolding no_file_on_iff by (meson prefix_order.trans)

lemma fs_mkdir_succeeds:
  assumes "no_file_on fs k" and "\<not> list_ex long_name k"
  shows "\<exists>fs'. mkdir_from fs [] k = (None, fs')"
proof (rule mkdir_from_succeeds [OF _ assms(2)], intro allI impI)
  fix i c assume "0 < i \<and> i \<le> length k"
  have "prefix (take i k) k" by (rule take_is_prefix)
  with assms show "node_at fs ([] @ take i k) \<noteq> Some (File c)"
    by (simp add: no_file_on_iff)
qed

lemma fs_writeFile_succeeds:
  "valid_path p \<Longrightarrow> node_at fs (fs_key p) \<noteq> Some Dir \<Longrightarrow>
   node_at fs (butlast (fs_key p)) = Some Dir \<Longrightarrow> \<exists>fs'. fs_writeFile fs p d = Inr fs'"
  by (auto simp: fs_writeFile_def Let_def parent_error_def valid_path_def
      split: option.splits node.splits)

lemma fs_rename_succeeds:
  "valid_path a \<Longrightarrow> valid_path b \<Longrightarrow>
   node_at fs (fs_key a) = Some (File c) \<Longrightarrow> node_at fs (fs_key b) \<noteq> Some Dir \<Longrightarrow>
   node_at fs (butlast (fs_key b)) = Some Dir \<Longrightarrow> \<exists>fs'. fs_rename fs a b = Inr fs'"
  by (auto simp: fs_rename_def Let_def parent_error_def valid_path_def
      split: option.splits node.splits)

lemma ensurePackageDir_succeeds:
  assumes "package_unblocked fs base pkg" and vp: "list_all valid_path (directory_paths base pkg)"
  shows "\<exists>fs1. ensurePackageDir fs base pkg = (Inr (path_join [base, ''packages'', sanitizePkgName pkg]), fs1)"
proof -
  define pd where "pd = path_join [base, ''packages'', sanitizePkgName pkg]"
  define td where "td = path_join [pd, ''tarballs'']"
  have kp: "fs_key pd = pkgKey base pkg" by (simp add: pd_def pkgKey_def)
  have kt: "fs_key td = pkgKey base pkg @ [''tarballs'']" unfolding td_def pd_def by (rule key_tarDir)
  have v: "valid_path pd" "valid_path td"
    using vp by (simp_all add: directory_paths_def packageDir_def pd_def td_def)
  have nf: "no_file_on fs (pkgKey base pkg @ [''tarballs''])"
    using assms by (simp add: package_unblocked_def)
  have "no_file_on fs (pkgKey base pkg)" by (rule no_file_on_prefix [OF nf]) simp
  from fs_mkdir_succeeds [OF this] v(1) obtain fsa where
    m1: "mkdir_from fs [] (pkgKey base pkg) = (None, fsa)"
    unfolding valid_path_def kp by blast
  have "no_file_on fsa (pkgKey base pkg @ [''tarballs''])"
    using nf mkdir_from_files [OF m1] unfolding no_file_on_iff by blast
  from fs_mkdir_succeeds [OF this] v(2) obtain fs1 where
    m2: "mkdir_from fsa [] (pkgKey base pkg @ [''tarballs'']) = (None, fs1)"
    unfolding valid_path_def kt by blast
  have a: "fs_mkdir fs pd = (None, fsa)" using m1 v(1) by (simp add: fs_mkdir_def valid_path_def kp)
  have b: "fs_mkdir fsa td = (None, fs1)" using m2 v(2) by (simp add: fs_mkdir_def valid_path_def kt)
  have "ensurePackageDir fs base pkg = (Inr pd, fs1)"
    by (simp only: ensurePackageDir_def Let_def pd_def [symmetric] td_def [symmetric] a b
        prod.case option.case)
  then show ?thesis unfolding pd_def by blast
qed

lemma ensurePackageDir_more:
  assumes "ensurePackageDir fs base pkg = (Inr d, fs1)"
  shows "node_at fs1 (pkgKey base pkg) = Some Dir"
    and "node_at fs1 k = Some (File c) \<Longrightarrow> node_at fs k = Some (File c)"
proof -
  obtain fsa where m1: "mkdir_from fs [] (pkgKey base pkg) = (None, fsa)"
    and m2: "mkdir_from fsa [] (pkgKey base pkg @ [''tarballs'']) = (None, fs1)"
    using assms
    by (auto simp: ensurePackageDir_def Let_def fs_mkdir_def key_tarDir pkgKey_def [symmetric]
        split: option.splits prod.splits)
  have "node_at fsa (pkgKey base pkg) = Some Dir"
    using mkdir_from_dir [OF m1 pkgKey_nonempty] by simp
  then show "node_at fs1 (pkgKey base pkg) = Some Dir" by (rule mkdir_from_keeps [OF m2])
  show "node_at fs1 k = Some (File c) \<Longrightarrow> node_at fs k = Some (File c)"
    using mkdir_from_files [OF m1] mkdir_from_files [OF m2] by blast
qed

lemma package_unblocked_ensure:
  assumes "ensurePackageDir fs base pkg = (Inr d, fs1)" and "package_unblocked fs base pkg"
  shows "package_unblocked fs1 base pkg"
  using assms(2) ensurePackageDir_more(2) [OF assms(1)]
  unfolding package_unblocked_def no_file_on_iff by blast

lemma key_tarballPath:
  "fs_key (tarballPath base pkg filename) = pkgKey base pkg @ ''tarballs'' # fileSegs filename"
  unfolding tarballPath_def packageDir_def by (rule key_outPath)

lemma fileSegs_single:
  "fileSegs filename \<noteq> [] \<Longrightarrow> fileSegs filename = [sanitizeFilename filename]"
  unfolding fileSegs_def by (cases "sanitizeFilename filename \<noteq> [] \<and> sanitizeFilename filename \<noteq> ''.''") simp_all

lemma saveTarball_succeeds:
  assumes ub: "package_unblocked fs base pkg" and pf: "proper_filename filename"
    and nd: "\<not> is_dir fs (tarballPath base pkg filename)"
    and vd: "list_all valid_path (directory_paths base pkg)"
    and vt: "valid_path (tarballPath base pkg filename)"
  shows "\<exists>p fs2. saveTarball fs base pkg filename buffer = (Inr p, fs2)"
proof -
  define pd where "pd = path_join [base, ''packages'', sanitizePkgName pkg]"
  define out where "out = path_join [path_join [pd, ''tarballs''], sanitizeFilename filename]"
  define TK where "TK = pkgKey base pkg @ [''tarballs'']"
  define OK where "OK = pkgKey base pkg @ ''tarballs'' # fileSegs filename"
  from ensurePackageDir_succeeds [OF ub vd] obtain fs1 where
    en: "ensurePackageDir fs base pkg = (Inr pd, fs1)" unfolding pd_def by blast
  note e = ensurePackageDir_ok [OF en]
  have vo: "valid_path out" using vt unfolding out_def pd_def tarballPath_def packageDir_def .
  have seg: "fileSegs filename = [sanitizeFilename filename]"
    using pf unfolding proper_filename_def by (rule fileSegs_single)
  have ko: "fs_key out = OK" unfolding out_def pd_def OK_def by (rule key_outPath)
  have kp: "fs_key (tarballPath base pkg filename) = OK" unfolding OK_def by (rule key_tarballPath)
  have len: "length OK = Suc (length TK)" by (simp add: OK_def TK_def seg)
  have np: "\<not> prefix OK TK" using len prefix_length_le [of OK TK] by auto
  have bl: "butlast OK = TK" unfolding OK_def TK_def seg by (simp add: butlast_append)
  have "node_at fs1 OK = node_at fs OK" using e(4) [of OK] np unfolding TK_def by simp
  then have a: "node_at fs1 (fs_key out) \<noteq> Some Dir"
    using nd unfolding is_dir_def kp ko by simp
  have b: "node_at fs1 (butlast (fs_key out)) = Some Dir"
    unfolding ko bl TK_def by (rule e(2))
  from fs_writeFile_succeeds [OF vo a b, of buffer] obtain fs2 where
    wr: "fs_writeFile fs1 out buffer = Inr fs2" by blast
  have "saveTarball fs base pkg filename buffer = (Inr out, fs2)"
    by (simp only: saveTarball_def en Let_def out_def [symmetric] wr prod.case sum.case)
  then show ?thesis by blast
qed

lemma writePackageMeta_succeeds:
  assumes ub: "package_unblocked fs base pkg"
    and nm: "\<not> is_dir fs (metaPath base pkg)" and nt: "\<not> is_dir fs (tmpPath base pkg now)"
    and vp: "list_all valid_path (descriptor_paths base pkg now)"
  shows "\<exists>fs3. writePackageMeta stringify now fs base pkg meta = (Inr (metaPath base pkg), fs3)"
proof -
  define pd where "pd = path_join [base, ''packages'', sanitizePkgName pkg]"
  define mp where "mp = metaPath base pkg"
  define tmp where "tmp = tmpPath base pkg now"
  define MK where "MK = pkgKey base pkg @ [''meta.json'']"
  define TK where "TK = pkgKey base pkg @ [''meta.json.tmp-'' @ dec now]"
  define PK where "PK = pkgKey base pkg"
  define body where "body = stringify (object_assign meta)"
  have kt: "fs_key tmp = TK" unfolding tmp_def TK_def by (rule key_tmpPath)
  have km: "fs_key mp = MK" unfolding mp_def MK_def by (rule key_metaPath)
  have bt: "butlast TK = PK" and bm: "butlast MK = PK" by (simp_all add: TK_def MK_def PK_def)
  have ne: "TK \<noteq> MK" by (simp add: TK_def MK_def)
  have npT: "\<not> prefix TK (pkgKey base pkg @ [''tarballs''])" by (simp add: TK_def)
  have npM: "\<not> prefix MK (pkgKey base pkg @ [''tarballs''])" by (simp add: MK_def)
  have PKne: "PK \<noteq> TK" by (simp add: PK_def TK_def)
  have vd: "list_all valid_path (directory_paths base pkg)"
    and vm: "valid_path mp" and vt: "valid_path tmp"
    using vp by (simp_all add: descriptor_paths_def mp_def tmp_def)
  from ensurePackageDir_succeeds [OF ub vd] obtain fs1 where
    en: "ensurePackageDir fs base pkg = (Inr pd, fs1)" unfolding pd_def by blast
  note e = ensurePackageDir_ok [OF en] ensurePackageDir_more [OF en]
  have a: "node_at fs1 (fs_key tmp) \<noteq> Some Dir"
    using e(4) [OF npT] nt unfolding is_dir_def tmp_def [symmetric] kt by simp
  have b: "node_at fs1 (butlast (fs_key tmp)) = Some Dir"
    unfolding kt bt PK_def by (rule e(5))
  from fs_writeFile_succeeds [OF vt a b, of body] obtain fs2 where
    wr: "fs_writeFile fs1 tmp body = Inr fs2" by blast
  note w = fs_writeFile_node [OF wr, unfolded kt]
  have src: "node_at fs2 (fs_key tmp) = Some (File body)" unfolding kt w by simp
  have "node_at fs2 MK = node_at fs MK" unfolding w using ne e(4) [OF npM] by simp
  then have dst: "node_at fs2 (fs_key mp) \<noteq> Some Dir"
    using nm unfolding is_dir_def mp_def [symmetric] km by simp
  have par: "node_at fs2 (butlast (fs_key mp)) = Some Dir"
    unfolding km bm w using PKne e(5) by (simp add: PK_def)
  from fs_rename_succeeds [OF vt vm src dst par] obtain fs3 where
    rn: "fs_rename fs2 tmp mp = Inr fs3" by blast
  have mp': "path_join [pd, ''meta.json''] = mp" by (simp add: mp_def metaPath_def pd_def)
  have tmp': "mp @ ''.tmp-'' @ dec now = tmp" by (simp add: tmp_def tmpPath_def mp_def)
  have "writePackageMeta_tmp stringify now fs base pkg meta = (Inr (tmp, mp), fs2)"
    by (simp only: writePackageMeta_tmp_def en Let_def mp' tmp' body_def [symmetric] wr
        prod.case sum.case)
  then have "writePackageMeta stringify now fs base pkg meta = (Inr mp, fs3)"
    unfolding writePackageMeta_def writePackageMeta_rename_def by (simp add: rn)
  then show ?thesis unfolding mp_def by blast
qed

lemma saveTarball_files:
  assumes "saveTarball fs base pkg filename buffer = (Inr p, fs2)"
    and "node_at fs2 k = Some (File c)"
  shows "k = pkgKey base pkg @ ''tarballs'' # fileSegs filename \<or> node_at fs k = Some (File c)"
proof -
  define pd where "pd = path_join [base, ''packages'', sanitizePkgName pkg]"
  define out where "out = path_join [path_join [pd, ''tarballs''], sanitizeFilename filename]"
  obtain d fs1 where en: "ensurePackageDir fs base pkg = (Inr d, fs1)"
    using assms(1) by (auto simp: saveTarball_def split: prod.splits sum.splits)
  have d: "d = pd" unfolding pd_def by (rule ensurePackageDir_ok(1) [OF en])
  have wr: "fs_writeFile fs1 out buffer = Inr fs2"
    using assms(1) en d by (auto simp: saveTarball_def Let_def out_def pd_def split: sum.splits)
  have ko: "fs_key out = pkgKey base pkg @ ''tarballs'' # fileSegs filename"
    unfolding out_def pd_def by (rule key_outPath)
  show ?thesis
  proof (cases "k = pkgKey base pkg @ ''tarballs'' # fileSegs filename")
    case False
    then have "node_at fs1 k = Some (File c)"
      using fs_writeFile_node [OF wr, of k] assms(2) unfolding ko by simp
    then show ?thesis using ensurePackageDir_more(2) [OF en] by blast
  qed simp
qed

lemma dataBuffer_parsed:
  "dataBuffer req = Some buffer \<Longrightarrow> bodyParsers parse (req_payload req) = Inr (JObj [])"
  by (cases "req_payload req") (simp_all add: dataBuffer_def)

lemma putTarball_succeeds:
  assumes auth: "authMiddleware token req = None"
    and lim: "\<not> req_limited req"
    and buf: "dataBuffer req = Some buffer"
    and vp: "list_all valid_path (upload_paths base pkg filename now)"
    and ub: "package_unblocked fs base pkg"
    and pf: "proper_filename filename"
    and nd: "\<not> is_dir fs (tarballPath base pkg filename)"
    and nm: "\<not> is_dir fs (metaPath base pkg)"
    and nt: "\<not> is_dir fs (tmpPath base pkg now)"
    and rd: "readPackageMeta parse fs base pkg = Inr d"
    and bd: "bindTarball pkg (JStr (tarballUrl req pkg filename)) d = Inr meta"
  shows "\<exists>fs'. putTarball parse stringify now token base req pkg filename fs =
           (Reply 201 (JObj [(''ok'', JBool True), (''filename'', JStr filename)]), fs')"
proof -
  define TK where "TK = pkgKey base pkg @ [''tarballs'']"
  define OK where "OK = pkgKey base pkg @ ''tarballs'' # fileSegs filename"
  define MK where "MK = pkgKey base pkg @ [''meta.json'']"
  define TM where "TM = pkgKey base pkg @ [''meta.json.tmp-'' @ dec now]"
  have seg: "fileSegs filename = [sanitizeFilename filename]"
    using pf unfolding proper_filename_def by (rule fileSegs_single)
  have len: "length OK = Suc (length TK)" by (simp add: OK_def TK_def seg)
  have npO: "\<not> prefix OK TK" using len prefix_length_le [of OK TK] by auto
  have npM: "\<not> prefix MK TK" by (simp add: MK_def TK_def)
  have npT: "\<not> prefix TM TK" by (simp add: TM_def TK_def)
  have neM: "MK \<noteq> OK" using len by (auto simp: MK_def TK_def)
  have neT: "TM \<noteq> OK" using len by (auto simp: TM_def TK_def)
  have kO: "fs_key (tarballPath base pkg filename) = OK" unfolding OK_def by (rule key_tarballPath)
  have kM: "fs_key (metaPath base pkg) = MK" unfolding MK_def by (rule key_metaPath)
  have kT: "fs_key (tmpPath base pkg now) = TM" unfolding TM_def by (rule key_tmpPath)
  have vt: "valid_path (tarballPath base pkg filename)"
    and vm: "list_all valid_path (descriptor_paths base pkg now)"
    using vp by (simp_all add: upload_paths_def)
  have vd: "list_all valid_path (directory_paths base pkg)"
    using vm by (simp add: descriptor_paths_def)
  from ensurePackageDir_succeeds [OF ub vd] obtain pd fs1 where
    en: "ensurePackageDir fs base pkg = (Inr pd, fs1)" by blast
  note e = ensurePackageDir_ok [OF en, folded TK_def]
  have ub1: "package_unblocked fs1 base pkg" by (rule package_unblocked_ensure [OF en ub])
  have nd1: "\<not> is_dir fs1 (tarballPath base pkg filename)"
    using nd e(4) [OF npO] unfolding is_dir_def kO by simp
  from saveTarball_succeeds [OF ub1 pf nd1 vd vt, of buffer] obtain saved fs2 where
    sv: "saveTarball fs1 base pkg filename buffer = (Inr saved, fs2)" by blast
  note s = saveTarball_ok [OF sv, folded TK_def OK_def]
  have frame2: "node_at fs2 k = node_at fs k" if "k \<noteq> OK" "\<not> prefix k TK" for k
    using s(4) [of k] e(4) [of k] that by simp
  have ub2: "package_unblocked fs2 base pkg"
    unfolding package_unblocked_def no_file_on_iff
  proof (intro allI impI notI)
    fix k c assume pk: "prefix k (pkgKey base pkg @ [''tarballs''])" and f: "node_at fs2 k = Some (File c)"
    have "k \<noteq> OK" using pk npO unfolding TK_def by auto
    with saveTarball_files [OF sv f] have "node_at fs1 k = Some (File c)" unfolding OK_def by simp
    with ub1 pk show False unfolding package_unblocked_def no_file_on_iff by blast
  qed
  have nm2: "\<not> is_dir fs2 (metaPath base pkg)"
    using nm frame2 [OF neM npM] unfolding is_dir_def kM by simp
  have nt2: "\<not> is_dir fs2 (tmpPath base pkg now)"
    using nt frame2 [OF neT npT] unfolding is_dir_def kT by simp
  have "readPackageMeta parse fs2 base pkg = readPackageMeta parse fs base pkg"
    by (rule readPackageMeta_cong) (use frame2 [OF neM npM] in \<open>simp add: MK_def\<close>)
  with rd have rd2: "readPackageMeta parse fs2 base pkg = Inr d" by simp
  from writePackageMeta_succeeds [OF ub2 nm2 nt2 vm, of stringify meta] obtain fs3 where
    wr: "writePackageMeta stringify now fs2 base pkg meta = (Inr (metaPath base pkg), fs3)" by blast
  have "putTarball_handler parse stringify now base req pkg filename fs =
           (Reply 201 (JObj [(''ok'', JBool True), (''filename'', JStr filename)]), fs3)"
    by (simp only: putTarball_handler_def buf en sv rd2 bd wr option.case prod.case sum.case)
  then have "putTarball parse stringify now token base req pkg filename fs =
           (Reply 201 (JObj [(''ok'', JBool True), (''filename'', JStr filename)]), fs3)"
    by (simp only: putTarball_def dataBuffer_parsed [OF buf] lim auth sum.case if_False option.case)
  then show ?thesis by blast
qed

section \<open>\<^verbatim>\<open>encodeURIComponent\<close> gives escaped forms\<close>

lemma hex_value_digit: "d < 16 \<Longrightarrow> hex_value (hex_digit d) = Some d"
proof -
  assume "d < 16"
  then have "d \<in> set [0..<16]" by simp
  then have "d \<in> {0,1,2,3,4,5,6,7,8,9,10,11,12,13,14,15}" by (simp add: upt_rec numeral_eq_Suc) 
  then show ?thesis by (elim insertE emptyE) (simp_all add: hex_value_def hex_digit_def upt_rec)
qed

lemma hex_digit_safe: "d < 16 \<Longrightarrow> uri_unreserved (hex_digit d)"
proof -
  assume "d < 16"
  then have "d \<in> set [0..<16]" by simp
  then have "d \<in> {0,1,2,3,4,5,6,7,8,9,10,11,12,13,14,15}" by (simp add: upt_rec numeral_eq_Suc) 
  then show ?thesis by (elim insertE emptyE) (simp_all add: uri_unreserved_def hex_digit_def)
qed


lemma url_unescape_plain:
  "c \<noteq> CHR ''%'' \<Longrightarrow> url_unescape (c # r) = map_option (Cons c) (url_unescape r)"
  by simp

lemma url_unescape_low:
  "hex_value h1 = Some a \<Longrightarrow> hex_value h2 = Some b \<Longrightarrow> 16 * a + b < 128 \<Longrightarrow>
   url_unescape (CHR ''%'' # h1 # h2 # r) = map_option (Cons (char_of (16 * a + b))) (url_unescape r)"
  by simp

lemma url_unescape_high:
  "hex_value h1 = Some a \<Longrightarrow> hex_value h2 = Some b \<Longrightarrow> 16 * a + b = 194 \<or> 16 * a + b = 195 \<Longrightarrow>
   hex_value h3 = Some a' \<Longrightarrow> hex_value h4 = Some b' \<Longrightarrow> 128 \<le> 16 * a' + b' \<Longrightarrow>
   16 * a' + b' < 192 \<Longrightarrow>
   url_unescape (CHR ''%'' # h1 # h2 # CHR ''%'' # h3 # h4 # r) =
     map_option (Cons (char_of (64 * (16 * a + b - 192) + (16 * a' + b' - 128)))) (url_unescape r)"
  by auto

declare url_unescape.simps [simp del]

lemma percent_shape:
  "percent b @ r = CHR ''%'' # hex_digit (b div 16) # hex_digit (b mod 16) # r"
  by (simp add: percent_def)

lemma percent_not_unreserved: "\<not> uri_unreserved CHR ''%''"
  by (simp add: uri_unreserved_def)

lemma url_unescape_percent_low:
  assumes "b < 128"
  shows "url_unescape (percent b @ r) = map_option (Cons (char_of b)) (url_unescape r)"
proof -
  have d: "b div 16 < 16" "b mod 16 < 16" using assms by simp_all
  have s: "16 * (b div 16) + b mod 16 = b" by simp
  show ?thesis
    unfolding percent_shape
    using url_unescape_low [OF hex_value_digit [OF d(1)] hex_value_digit [OF d(2)], of r] assms
    unfolding s by simp
qed

lemma url_unescape_percent_high:
  assumes "b1 = 194 \<or> b1 = 195" and "128 \<le> b2" and "b2 < 192"
  shows "url_unescape (percent b1 @ percent b2 @ r) =
     map_option (Cons (char_of (64 * (b1 - 192) + (b2 - 128)))) (url_unescape r)"
proof -
  have d: "b1 div 16 < 16" "b1 mod 16 < 16" "b2 div 16 < 16" "b2 mod 16 < 16"
    using assms by auto
  have s: "16 * (b1 div 16) + b1 mod 16 = b1" "16 * (b2 div 16) + b2 mod 16 = b2" by simp_all
  show ?thesis
    unfolding percent_shape
    using url_unescape_high [OF hex_value_digit [OF d(1)] hex_value_digit [OF d(2)] _
        hex_value_digit [OF d(3)] hex_value_digit [OF d(4)], of r] assms
    unfolding s by simp
qed

lemma url_unescape_encode_char:
  "url_unescape (encode_char c @ r) = map_option (Cons c) (url_unescape r)"
proof -
  define n where "n = (of_char c :: nat)"
  have n: "n < 256" unfolding n_def by simp
  have c: "char_of n = c" unfolding n_def by simp
  consider (plain) "uri_unreserved c" | (low) "\<not> uri_unreserved c" "n < 128"
    | (high) "\<not> uri_unreserved c" "128 \<le> n" by linarith
  then show ?thesis
  proof cases
    case plain
    then have ne: "c \<noteq> CHR ''%''" using percent_not_unreserved by auto
    have "encode_char c = [c]" using plain by (simp add: encode_char_def)
    then show ?thesis using url_unescape_plain [OF ne, of r] by simp
  next
    case low
    have e: "encode_char c = percent n" using low by (simp add: encode_char_def n_def)
    show ?thesis unfolding e url_unescape_percent_low [OF low(2)] c ..
  next
    case high
    define b1 where "b1 = 192 + n div 64"
    define b2 where "b2 = 128 + n mod 64"
    have e: "encode_char c = percent b1 @ percent b2"
      using high by (simp add: encode_char_def n_def b1_def b2_def Let_def)
    have "n div 64 < 4" using n by (simp add: less_mult_imp_div_less)
    moreover have "2 \<le> n div 64" using div_le_mono [OF high(2), of 64] by simp
    ultimately have lead: "b1 = 194 \<or> b1 = 195" unfolding b1_def by linarith
    have cont: "128 \<le> b2" "b2 < 192" by (simp_all add: b2_def)
    have dc: "64 * (b1 - 192) + (b2 - 128) = n" by (simp add: b1_def b2_def)
    show ?thesis
      unfolding e append_assoc url_unescape_percent_high [OF lead cont] dc c ..
  qed
qed

lemma url_unescape_encode: "url_unescape (encodeURIComponent s) = Some s"
proof (induction s)
  case Nil
  show ?case by (simp add: encodeURIComponent_def url_unescape.simps)
next
  case (Cons c s)
  have "encodeURIComponent (c # s) = encode_char c @ encodeURIComponent s"
    by (simp add: encodeURIComponent_def)
  then show ?case by (simp add: url_unescape_encode_char Cons.IH)
qed

lemma percent_safe:
  assumes "b < 256"
  shows "list_all (\<lambda>c. uri_unreserved c \<or> c = CHR ''%'') (percent b)"
proof -
  have "b div 16 < 16" "b mod 16 < 16" using assms by simp_all
  then show ?thesis by (simp add: percent_def hex_digit_safe)
qed

lemma encode_char_safe: "list_all (\<lambda>c. uri_unreserved c \<or> c = CHR ''%'') (encode_char c)"
proof -
  define n where "n = (of_char c :: nat)"
  have n: "n < 256" unfolding n_def by simp
  have "192 + n div 64 < 256" "128 + n mod 64 < 256" using n by simp_all
  then show ?thesis
    using percent_safe [OF n] percent_safe [of "192 + n div 64"] percent_safe [of "128 + n mod 64"]
    unfolding encode_char_def Let_def n_def [symmetric] by simp
qed

lemma encodeURIComponent_escaped: "url_escaped (encodeURIComponent s) s"
proof -
  have "list_all (\<lambda>c. uri_unreserved c \<or> c = CHR ''%'') (encodeURIComponent s)"
    by (induction s) (simp_all add: encodeURIComponent_def encode_char_safe)
  then show ?thesis by (simp add: url_escaped_def url_unescape_encode)
qed

section \<open>Binding a tarball to a version\<close>

lemma map_of_set_prop: "map_of (set_prop k v ps) k' = (if k' = k then Some v else map_of ps k')"
  by (induction ps) auto

lemma set_prop_twice: "set_prop k a (set_prop k b ps) = set_prop k a ps"
  by (induction ps) auto

lemma map_of_strip: "k \<noteq> k0 \<Longrightarrow> map_of (filter (\<lambda>e. fst e \<noteq> k0) ps) k = map_of ps k"
  by (induction ps) auto

lemma tags_ok_latest:
  "tags_ok (Some (JObj ts)) \<Longrightarrow> map_of ts k = Some v \<Longrightarrow> \<exists>s. v = JStr s"
proof -
  assume a: "tags_ok (Some (JObj ts))" and m: "map_of ts k = Some v"
  from m have "(k, v) \<in> set ts" by (rule map_of_SomeD)
  with a have "is_string v" by (auto simp: list_all_iff)
  then show ?thesis by (cases v) auto
qed

lemma versions_ok_record:
  "versions_ok (Some (JObj vps)) \<Longrightarrow> map_of vps k = Some r \<Longrightarrow> record_ok r"
proof -
  assume a: "versions_ok (Some (JObj vps))" and m: "map_of vps k = Some r"
  from m have "(k, r) \<in> set vps" by (rule map_of_SomeD)
  with a show ?thesis by (auto simp: list_all_iff)
qed

lemma record_ok_shape:
  "record_ok r \<Longrightarrow> \<exists>rps dps. r = JObj rps \<and> or_empty (map_of rps ''dist'') = JObj dps \<and>
      (map_of rps ''dist'' = None \<and> dps = [] \<or> map_of rps ''dist'' = Some (JObj dps))"
  by (cases r) (auto split: option.splits json.splits)

lemma resolve_well_formed:
  assumes "tags_ok (map_of ps ''dist-tags'')"
  shows "to_string (resolveVersion ps) = spec_version_key (JObj ps)"
proof (cases "map_of ps ''dist-tags''")
  case None
  then show ?thesis by (simp add: resolveVersion_def spec_version_key_def)
next
  case (Some tags)
  with assms obtain ts where ts: "tags = JObj ts" by (cases tags) auto
  show ?thesis
  proof (cases "map_of ts ''latest''")
    case None
    with Some ts show ?thesis by (simp add: resolveVersion_def spec_version_key_def)
  next
    case (Some l)
    with tags_ok_latest [of ts "''latest''" l] assms \<open>map_of ps ''dist-tags'' = Some tags\<close> ts
    obtain s where "l = JStr s" by auto
    with Some \<open>map_of ps ''dist-tags'' = Some tags\<close> ts show ?thesis
      by (simp add: resolveVersion_def spec_version_key_def)
  qed
qed

lemma resolveVersion_cong:
  "map_of a ''dist-tags'' = map_of b ''dist-tags'' \<Longrightarrow> resolveVersion a = resolveVersion b"
  by (simp add: resolveVersion_def)

lemma proto_in_names: "''__proto__'' \<in> set object_prototype_names"
  by (simp add: object_prototype_names_def)

lemma assign_prop_plain:
  "map_of ps k \<noteq> None \<or> k \<notin> set object_prototype_names \<Longrightarrow> assign_prop k v ps = set_prop k v ps"
  using proto_in_names by (auto simp: assign_prop_def)

lemma assign_prop_fixed [simp]:
  "assign_prop ''versions'' v ps = set_prop ''versions'' v ps"
  "assign_prop ''dist'' v ps = set_prop ''dist'' v ps"
  "assign_prop ''tarball'' v ps = set_prop ''tarball'' v ps"
  by (simp_all add: assign_prop_def)

lemma assign_dist_ok:
  assumes "map_of rps ''dist'' = None \<and> dps = [] \<or> map_of rps ''dist'' = Some (JObj dps)"
  shows "assign_dist url (JObj rps) =
         Inr (JObj (set_prop ''dist'' (JObj (set_prop ''tarball'' url dps)) rps))"
  using assms by auto

lemma assign_version_ok:
  assumes vo: "versions_ok (Some (JObj vps))"
    and own: "map_of vps k \<noteq> None \<or> k \<notin> set object_prototype_names"
  shows "\<exists>rps dps.
     assign_version url k (JObj vps) =
       Inr (JObj (set_prop k (JObj (set_prop ''dist'' (JObj (set_prop ''tarball'' url dps)) rps)) vps)) \<and>
     (map_of vps k = None \<and> rps = [] \<or> map_of vps k = Some (JObj rps)) \<and>
     (map_of rps ''dist'' = None \<and> dps = [] \<or> map_of rps ''dist'' = Some (JObj dps))"
proof (cases "map_of vps k")
  case None
  have d: "map_of [] ''dist'' = None \<and> ([]::(string \<times> json) list) = [] \<or> map_of [] ''dist'' = Some (JObj [])"
    by simp
  have "assign_version url k (JObj vps) =
       Inr (JObj (set_prop k (JObj (set_prop ''dist'' (JObj (set_prop ''tarball'' url [])) [])) vps))"
    using None own by (simp add: assign_prop_plain)
  with None show ?thesis by (intro exI [of _ "[]"]) simp
next
  case (Some r)
  from versions_ok_record [OF vo Some] record_ok_shape [of r]
  obtain rps dps where r: "r = JObj rps"
    and d: "map_of rps ''dist'' = None \<and> dps = [] \<or> map_of rps ''dist'' = Some (JObj dps)"
    by blast
  have "assign_version url k (JObj vps) =
       Inr (JObj (set_prop k (JObj (set_prop ''dist'' (JObj (set_prop ''tarball'' url dps)) rps)) vps))"
    using Some r own assign_dist_ok [OF d, of url] by (simp add: assign_prop_plain)
  with Some r d show ?thesis by blast
qed

lemma bindTarball_props:
  assumes to: "tags_ok (map_of ps ''dist-tags'')"
    and vo: "map_of ps ''versions'' = None \<and> vps = [] \<or> map_of ps ''versions'' = Some (JObj vps)"
    and vok: "versions_ok (Some (JObj vps))"
    and own: "map_of vps (spec_version_key (JObj ps)) \<noteq> None \<or>
              spec_version_key (JObj ps) \<notin> set object_prototype_names"
    and d: "(if truthy d then d else emptyDescriptor pkg) = JObj ps"
  shows "\<exists>rps dps.
     bindTarball pkg url d =
       Inr (JObj (set_prop ''versions''
         (JObj (set_prop (spec_version_key (JObj ps))
            (JObj (set_prop ''dist'' (JObj (set_prop ''tarball'' url dps)) rps)) vps)) ps)) \<and>
     (map_of vps (spec_version_key (JObj ps)) = None \<and> rps = [] \<or>
      map_of vps (spec_version_key (JObj ps)) = Some (JObj rps)) \<and>
     (map_of rps ''dist'' = None \<and> dps = [] \<or> map_of rps ''dist'' = Some (JObj dps))"
proof -
  let ?k = "spec_version_key (JObj ps)"
  have oe: "or_empty (map_of ps ''versions'') = JObj vps" using vo by auto
  have "resolveVersion (set_prop ''versions'' (JObj vps) ps) = resolveVersion ps"
    by (rule resolveVersion_cong) (simp add: map_of_set_prop)
  then have k: "to_string (resolveVersion (set_prop ''versions'' (JObj vps) ps)) = ?k"
    using resolve_well_formed [OF to] by simp
  from assign_version_ok [OF vok own, of url] obtain rps dps where
    av: "assign_version url ?k (JObj vps) =
       Inr (JObj (set_prop ?k (JObj (set_prop ''dist'' (JObj (set_prop ''tarball'' url dps)) rps)) vps))"
    and r: "map_of vps ?k = None \<and> rps = [] \<or> map_of vps ?k = Some (JObj rps)"
    and dd: "map_of rps ''dist'' = None \<and> dps = [] \<or> map_of rps ''dist'' = Some (JObj dps)"
    by blast
  have "bindTarball pkg url d =
       Inr (JObj (set_prop ''versions''
         (JObj (set_prop ?k (JObj (set_prop ''dist'' (JObj (set_prop ''tarball'' url dps)) rps)) vps)) ps))"
    unfolding bindTarball_def d Let_def
    by (simp add: oe k av set_prop_twice del: assign_version.simps)
  with r dd show ?thesis by blast
qed

lemma json_at_versions_set:
  "json_at (object_assign (JObj (set_prop ''versions'' v ps))) (''versions'' # ks) = json_at v ks"
  by (simp add: object_assign_def map_of_strip map_of_set_prop)

lemma zero_version_not_inherited: "''0.0.0'' \<notin> set object_prototype_names"
  by (simp add: object_prototype_names_def)

lemma upload_persists:
  assumes ok: "putTarball parse stringify now token base req pkg filename fs = (Reply 201 b, fs')"
    and rd: "readPackageMeta parse fs base pkg = Inr d"
    and wf: "d = JNull \<or> well_formed_descriptor d"
    and own: "json_at d [''versions'', spec_version_key d] \<noteq> None \<or>
              spec_version_key d \<notin> set object_prototype_names"
  shows "\<exists>ps vps rps dps.
     fs_readFile fs' (metaPath base pkg) =
       Inr (stringify (object_assign (JObj (set_prop ''versions''
         (JObj (set_prop (spec_version_key d)
            (JObj (set_prop ''dist'' (JObj (set_prop ''tarball'' (JStr (tarballUrl req pkg filename)) dps)) rps))
            vps)) ps)))) \<and>
     (d = JNull \<and> JObj ps = emptyDescriptor pkg \<or> d = JObj ps) \<and>
     (\<forall>k. json_at d [''versions'', k] = map_of vps k) \<and>
     (\<forall>k ks. json_at d (''versions'' # k # ks) =
        (case map_of vps k of None \<Rightarrow> None | Some w \<Rightarrow> json_at w ks)) \<and>
     (map_of vps (spec_version_key d) = None \<and> rps = [] \<or>
      map_of vps (spec_version_key d) = Some (JObj rps)) \<and>
     (map_of rps ''dist'' = None \<and> dps = [] \<or> map_of rps ''dist'' = Some (JObj dps))"
proof -
  let ?url = "JStr (tarballUrl req pkg filename)"
  from putTarball_created [OF ok] rd obtain meta where
    bd: "bindTarball pkg ?url d = Inr meta"
    and mf: "fs_readFile fs' (metaPath base pkg) = Inr (stringify (object_assign meta))"
    by auto
  obtain ps vps where d0: "(if truthy d then d else emptyDescriptor pkg) = JObj ps"
    and dd: "d = JNull \<and> JObj ps = emptyDescriptor pkg \<or> d = JObj ps"
    and to: "tags_ok (map_of ps ''dist-tags'')"
    and vo: "map_of ps ''versions'' = None \<and> vps = [] \<or> map_of ps ''versions'' = Some (JObj vps)"
    and vok: "versions_ok (Some (JObj vps))"
    and key: "spec_version_key (JObj ps) = spec_version_key d"
    and at: "\<And>k. json_at d [''versions'', k] = map_of vps k"
    and deep: "\<And>k ks. json_at d (''versions'' # k # ks) =
        (case map_of vps k of None \<Rightarrow> None | Some w \<Rightarrow> json_at w ks)"
  proof (cases "d = JNull")
    case True
    show ?thesis
      by (rule that [of "[(''name'', JStr pkg), (''versions'', JObj [])]" "[]"])
         (simp_all add: True emptyDescriptor_def spec_version_key_def)
  next
    case False
    with wf obtain ps where d: "d = JObj ps" and w: "well_formed_descriptor (JObj ps)"
      by (cases d) auto
    show ?thesis
    proof (cases "map_of ps ''versions''")
      case None
      show ?thesis
        by (rule that [of ps "[]"]) (use d w None in simp_all)
    next
      case (Some v)
      with w obtain vps where v: "v = JObj vps" by (cases v) auto
      show ?thesis
        by (rule that [of ps vps]) (use d w Some v in \<open>simp_all split: option.splits\<close>)
    qed
  qed
  have own': "map_of vps (spec_version_key (JObj ps)) \<noteq> None \<or>
              spec_version_key (JObj ps) \<notin> set object_prototype_names"
    using own at by (simp add: key)
  from bindTarball_props [OF to vo vok own' d0, of ?url, unfolded key]
  obtain rps dps where
    m: "bindTarball pkg ?url d =
       Inr (JObj (set_prop ''versions''
         (JObj (set_prop (spec_version_key d)
            (JObj (set_prop ''dist'' (JObj (set_prop ''tarball'' ?url dps)) rps)) vps)) ps))"
    and r: "map_of vps (spec_version_key d) = None \<and> rps = [] \<or>
      map_of vps (spec_version_key d) = Some (JObj rps)"
    and di: "map_of rps ''dist'' = None \<and> dps = [] \<or> map_of rps ''dist'' = Some (JObj dps)"
    by blast
  have meta: "meta = JObj (set_prop ''versions''
         (JObj (set_prop (spec_version_key d)
            (JObj (set_prop ''dist'' (JObj (set_prop ''tarball'' ?url dps)) rps)) vps)) ps)"
    using bd m by simp
  show ?thesis
    using mf [unfolded meta] dd at deep r di by blast
qed

text \<open>
  What an upload leaves untouched in a descriptor of the data model: every field but
  \<^verbatim>\<open>versions\<close> and \<^verbatim>\<open>__proto__\<close>, every other version, every field of the version record but
  \<^verbatim>\<open>dist\<close>, and every field of \<^verbatim>\<open>dist\<close> but \<^verbatim>\<open>tarball\<close>. The document written never has
  a field \<^verbatim>\<open>__proto__\<close>.
\<close>

lemma upload_frame:
  assumes ok: "putTarball parse stringify now token base req pkg filename fs = (Reply 201 b, fs')"
    and rd: "readPackageMeta parse fs base pkg = Inr d"
    and wf: "well_formed_descriptor d"
    and own: "json_at d [''versions'', spec_version_key d] \<noteq> None \<or>
              spec_version_key d \<notin> set object_prototype_names"
  shows "\<exists>doc.
     fs_readFile fs' (metaPath base pkg) = Inr (stringify doc) \<and>
     (\<forall>f. f \<noteq> ''versions'' \<and> f \<noteq> ''__proto__'' \<longrightarrow> json_at doc [f] = json_at d [f]) \<and>
     json_at doc [''__proto__''] = None \<and>
     (\<forall>k. k \<noteq> spec_version_key d \<longrightarrow> json_at doc [''versions'', k] = json_at d [''versions'', k]) \<and>
     (\<forall>f. f \<noteq> ''dist'' \<longrightarrow>
        json_at doc [''versions'', spec_version_key d, f] = json_at d [''versions'', spec_version_key d, f]) \<and>
     (\<forall>f. f \<noteq> ''tarball'' \<longrightarrow>
        json_at doc [''versions'', spec_version_key d, ''dist'', f] =
        json_at d [''versions'', spec_version_key d, ''dist'', f])"
proof -
  have wf': "d = JNull \<or> well_formed_descriptor d" using wf by simp
  have nn: "d \<noteq> JNull" using wf by auto
  from upload_persists [OF ok rd wf' own] nn obtain ps vps rps dps where
    mf: "fs_readFile fs' (metaPath base pkg) =
       Inr (stringify (object_assign (JObj (set_prop ''versions''
         (JObj (set_prop (spec_version_key d)
            (JObj (set_prop ''dist'' (JObj (set_prop ''tarball'' (JStr (tarballUrl req pkg filename)) dps)) rps))
            vps)) ps))))"
    and d: "d = JObj ps"
    and at: "\<forall>k. json_at d [''versions'', k] = map_of vps k"
    and deep0: "\<forall>k ks. json_at d (''versions'' # k # ks) =
        (case map_of vps k of None \<Rightarrow> None | Some w \<Rightarrow> json_at w ks)"
    and r: "map_of vps (spec_version_key d) = None \<and> rps = [] \<or>
      map_of vps (spec_version_key d) = Some (JObj rps)"
    and di: "map_of rps ''dist'' = None \<and> dps = [] \<or> map_of rps ''dist'' = Some (JObj dps)"
    by blast
  have top: "f \<noteq> ''versions'' \<Longrightarrow> f \<noteq> ''__proto__'' \<Longrightarrow>
      json_at (object_assign (JObj (set_prop ''versions'' v ps))) [f] = json_at (JObj ps) [f]" for f v
    by (simp add: object_assign_def map_of_strip map_of_set_prop)
  have proto: "json_at (object_assign v) [''__proto__''] = None" for v
    by (simp add: object_assign_def map_of_filter_same split: option.splits)
  have deep: "json_at d (''versions'' # k # ks) = (case map_of vps k of None \<Rightarrow> None | Some w \<Rightarrow> json_at w ks)" for k ks
    using deep0 by blast
  show ?thesis
    apply (rule exI, rule conjI, rule mf)
    apply (intro conjI allI impI)
    subgoal for f using top [of f] d by simp
    subgoal by (rule proto)
    subgoal for k by (simp add: json_at_versions_set map_of_set_prop at split: option.splits)
    subgoal for f using r by (auto simp: json_at_versions_set map_of_set_prop deep split: option.splits)
    subgoal for f using r di by (auto simp: json_at_versions_set map_of_set_prop deep split: option.splits)
    done
qed

lemma fallback_version_when_created:
  assumes ok: "putTarball parse stringify now token base req pkg filename fs = (Reply 201 b, fs')"
    and rd: "readPackageMeta parse fs base pkg = Inr d"
    and empty: "d = JNull \<or>
        (\<exists>ps. d = JObj ps \<and> map_of ps ''dist-tags'' = None \<and>
           (map_of ps ''versions'' = None \<or> map_of ps ''versions'' = Some (JObj [])))"
  shows "\<exists>doc buffer p.
     dataBuffer req = Some buffer \<and>
     fs_readFile fs' (metaPath base pkg) = Inr (stringify doc) \<and>
     json_at doc [''versions'', ''0.0.0'', ''dist'', ''tarball''] =
       Some (JStr (req_protocol req @ ''://'' @ req_host req @ ''/'' @ encodeURIComponent pkg @
                   ''/-/'' @ encodeURIComponent filename)) \<and>
     getTarballPath fs' base pkg filename = Some p \<and>
     fs_readFile fs' p = Inr buffer"
proof -
  let ?url = "JStr (tarballUrl req pkg filename)"
  from putTarball_created [OF ok] rd obtain buffer meta p where
    buf: "dataBuffer req = Some buffer"
    and bd: "bindTarball pkg ?url d = Inr meta"
    and mf: "fs_readFile fs' (metaPath base pkg) = Inr (stringify (object_assign meta))"
    and gp: "getTarballPath fs' base pkg filename = Some p"
    and gf: "fs_readFile fs' p = Inr buffer"
    by auto
  obtain ps where d0: "(if truthy d then d else emptyDescriptor pkg) = JObj ps"
    and tg: "map_of ps ''dist-tags'' = None"
    and vs: "map_of ps ''versions'' = None \<or> map_of ps ''versions'' = Some (JObj [])"
    using empty by (auto simp: emptyDescriptor_def)
  have key: "spec_version_key (JObj ps) = ''0.0.0''"
    using tg by (simp add: spec_version_key_def)
  have vo: "map_of ps ''versions'' = None \<and> ([]::(string \<times> json) list) = [] \<or>
            map_of ps ''versions'' = Some (JObj [])"
    using vs by simp
  have to: "tags_ok (map_of ps ''dist-tags'')" using tg by simp
  have vok: "versions_ok (Some (JObj []))" by simp
  have own: "map_of [] (spec_version_key (JObj ps)) \<noteq> (None :: json option) \<or>
             spec_version_key (JObj ps) \<notin> set object_prototype_names"
    by (simp add: key zero_version_not_inherited)
  from bindTarball_props [OF to vo vok own d0, of ?url, unfolded key]
  obtain rps dps where
    m: "bindTarball pkg ?url d =
       Inr (JObj (set_prop ''versions''
         (JObj (set_prop ''0.0.0'' (JObj (set_prop ''dist'' (JObj (set_prop ''tarball'' ?url dps)) rps)) [])) ps))"
    by blast
  have meta: "meta = JObj (set_prop ''versions''
         (JObj (set_prop ''0.0.0'' (JObj (set_prop ''dist'' (JObj (set_prop ''tarball'' ?url dps)) rps)) [])) ps)"
    using bd m by simp
  have "json_at (object_assign meta) [''versions'', ''0.0.0'', ''dist'', ''tarball''] = Some ?url"
    unfolding meta json_at_versions_set by (simp add: map_of_set_prop)
  with buf mf gp gf show ?thesis by (auto simp: tarballUrl_def)
qed

lemma version_key_when_created:
  assumes ok: "putTarball parse stringify now token base req pkg filename fs = (Reply 201 b, fs')"
    and rd: "readPackageMeta parse fs base pkg = Inr d"
    and wf: "d = JNull \<or> well_formed_descriptor d"
    and own: "json_at d [''versions'', spec_version_key d] \<noteq> None \<or>
              spec_version_key d \<notin> set object_prototype_names"
  shows "\<exists>doc.
     fs_readFile fs' (metaPath base pkg) = Inr (stringify doc) \<and>
     json_at doc [''versions'', spec_version_key d, ''dist'', ''tarball''] =
       Some (JStr (tarballUrl req pkg filename)) \<and>
     (\<forall>k. k \<noteq> spec_version_key d \<longrightarrow> json_at doc [''versions'', k] = json_at d [''versions'', k])"
proof -
  from upload_persists [OF ok rd wf own] obtain ps vps rps dps where
    mf: "fs_readFile fs' (metaPath base pkg) =
       Inr (stringify (object_assign (JObj (set_prop ''versions''
         (JObj (set_prop (spec_version_key d)
            (JObj (set_prop ''dist'' (JObj (set_prop ''tarball'' (JStr (tarballUrl req pkg filename)) dps)) rps))
            vps)) ps))))"
    and at: "\<forall>k. json_at d [''versions'', k] = map_of vps k"
    by blast
  show ?thesis
    by (rule exI, rule conjI, rule mf)
       (simp add: json_at_versions_set map_of_set_prop at split: option.splits)
qed

lemma bindTarball_succeeds:
  assumes wf: "d = JNull \<or> well_formed_descriptor d"
    and own: "json_at d [''versions'', spec_version_key d] \<noteq> None \<or>
              spec_version_key d \<notin> set object_prototype_names"
  shows "\<exists>meta. bindTarball pkg url d = Inr meta"
proof -
  obtain ps vps where d0: "(if truthy d then d else emptyDescriptor pkg) = JObj ps"
    and to: "tags_ok (map_of ps ''dist-tags'')"
    and vo: "map_of ps ''versions'' = None \<and> vps = [] \<or> map_of ps ''versions'' = Some (JObj vps)"
    and vok: "versions_ok (Some (JObj vps))"
    and key: "spec_version_key (JObj ps) = spec_version_key d"
    and at: "\<And>k. json_at d [''versions'', k] = map_of vps k"
  proof (cases "d = JNull")
    case True
    show ?thesis
      by (rule that [of "[(''name'', JStr pkg), (''versions'', JObj [])]" "[]"])
         (simp_all add: True emptyDescriptor_def spec_version_key_def)
  next
    case False
    with wf obtain ps where d: "d = JObj ps" and w: "well_formed_descriptor (JObj ps)"
      by (cases d) auto
    show ?thesis
    proof (cases "map_of ps ''versions''")
      case None
      show ?thesis
        by (rule that [of ps "[]"]) (use d w None in simp_all)
    next
      case (Some v)
      with w obtain vps where v: "v = JObj vps" by (cases v) auto
      show ?thesis
        by (rule that [of ps vps]) (use d w Some v in \<open>simp_all split: option.splits\<close>)
    qed
  qed
  have own': "map_of vps (spec_version_key (JObj ps)) \<noteq> None \<or>
              spec_version_key (JObj ps) \<notin> set object_prototype_names"
    using own at by (simp add: key)
  from bindTarball_props [OF to vo vok own' d0, of url] show ?thesis by blast
qed

lemma empty_descriptor_well_formed:
  assumes "d = JNull \<or>
        (\<exists>ps. d = JObj ps \<and> map_of ps ''dist-tags'' = None \<and>
           (map_of ps ''versions'' = None \<or> map_of ps ''versions'' = Some (JObj [])))"
  shows "d = JNull \<or> well_formed_descriptor d"
    and "spec_version_key d = ''0.0.0''"
  using assms by (auto simp: spec_version_key_def)

section \<open>Sanitization safety and idempotence\<close>

lemma tarballPath_components:
  "components (tarballPath base pkg filename) =
     components (packageDir base pkg) @ ''tarballs'' #
       filter (\<lambda>x. x \<noteq> [] \<and> x \<noteq> ''.'') (split_path (sanitizeFilename filename))"
  "isAbsolute (tarballPath base pkg filename) = isAbsolute base"
proof -
  have nested: "components (tarballPath base pkg filename) =
      components (path_join [packageDir base pkg, ''tarballs'', sanitizeFilename filename])"
    unfolding tarballPath_def by (rule components_join_nested) simp
  show "components (tarballPath base pkg filename) =
     components (packageDir base pkg) @ ''tarballs'' #
       filter (\<lambda>x. x \<noteq> [] \<and> x \<noteq> ''.'') (split_path (sanitizeFilename filename))"
    unfolding nested
    using components_below(1) [of "sanitizeFilename filename" "''tarballs''" "packageDir base pkg"]
    by (simp add: sanitizeFilename_no_dotdot isAbsolute_def)
  have "isAbsolute (path_join [packageDir base pkg, ''tarballs'']) = isAbsolute (packageDir base pkg)"
    unfolding isAbsolute_path_join by (cases "packageDir base pkg") (simp_all add: isAbsolute_def)
  then show "isAbsolute (tarballPath base pkg filename) = isAbsolute base"
    unfolding tarballPath_def isAbsolute_join_nested by (simp add: packageDir_components)
qed

text \<open>
  Claim C1. For every raw package name and every raw filename, the sanitized key has no
  parent-directory sequence \<^verbatim>\<open>..\<close>, and the paths built from it resolve strictly inside
  the storage root: the package directory \<^verbatim>\<open>path.join(base, "packages", key)\<close>, the same
  join with a sanitized filename as the key, and the tarball path the store uses.
\<close>

theorem sanitized_keys_stay_inside_root:
  "\<not> has_dotdot (sanitizePkgName pkg) \<and> \<not> has_dotdot (sanitizeFilename filename) \<and>
   strictly_inside base (packageDir base pkg) \<and>
   strictly_inside base (path_join [base, ''packages'', sanitizeFilename filename]) \<and>
   strictly_inside base (tarballPath base pkg filename)"
proof -
  have "strictly_inside base (path_join [base, ''packages'', sanitizeFilename filename])"
    using components_below [of "sanitizeFilename filename" "''packages''" base]
    by (simp add: strictly_inside_def sanitizeFilename_no_dotdot isAbsolute_def strict_prefix_def)
  then show ?thesis
    by (simp add: strictly_inside_def packageDir_components tarballPath_components
        sanitizePkgName_no_dotdot sanitizeFilename_no_dotdot strict_prefix_def)
qed

theorem sanitized_keys_stay_inside_root_witness:
  "sanitizePkgName ''../../etc/passwd'' = ''//etc/passwd'' \<and>
   packageDir ''/srv/storage'' ''../../etc/passwd'' = ''/srv/storage/packages/etc/passwd'' \<and>
   strictly_inside ''/srv/storage'' (packageDir ''/srv/storage'' ''../../etc/passwd'') \<and>
   strictly_inside ''/srv/storage'' (tarballPath ''/srv/storage'' ''a'' ''../../x.tgz'')"
proof -
  have "sanitizePkgName ''../../etc/passwd'' = ''//etc/passwd''" by code_simp
  moreover have "packageDir ''/srv/storage'' ''../../etc/passwd'' = ''/srv/storage/packages/etc/passwd''"
    by code_simp
  ultimately show ?thesis
    using sanitized_keys_stay_inside_root [of "''../../etc/passwd''" "''../../x.tgz''" "''/srv/storage''"]
      sanitized_keys_stay_inside_root [of "''a''" "''../../x.tgz''" "''/srv/storage''"]
    by simp
qed

text \<open>
  Claim C10. Both sanitizers are idempotent, and so is their use on a directory name that
  \<^verbatim>\<open>listAllPackages\<close> reads back: the directory of an already sanitized name is the
  directory of the name.
\<close>

theorem sanitizers_idempotent:
  "sanitizePkgName (sanitizePkgName s) = sanitizePkgName s \<and>
   sanitizeFilename (sanitizeFilename s) = sanitizeFilename s \<and>
   packageDir base (sanitizePkgName s) = packageDir base s"
proof -
  have "remove_dotdot (sanitizePkgName s) = sanitizePkgName s"
    by (rule remove_dotdot_id) (rule sanitizePkgName_no_dotdot)
  then have p: "sanitizePkgName (sanitizePkgName s) = sanitizePkgName s"
    by (simp add: sanitizePkgName_def pkg_char_ok_def)
  have "remove_dotdot (sanitizeFilename s) = sanitizeFilename s"
    by (rule remove_dotdot_id) (rule sanitizeFilename_no_dotdot)
  then have f: "sanitizeFilename (sanitizeFilename s) = sanitizeFilename s"
    by (simp add: sanitizeFilename_def)
  from p f show ?thesis by (simp add: packageDir_def)
qed

section \<open>Reading a descriptor\<close>

text \<open>
  Claim C7. \<^verbatim>\<open>readPackageMeta\<close> never throws: for every package name it returns a value,
  the parsed document when the file is there and parses, and \<^verbatim>\<open>null\<close> both when the file
  cannot be read and when its text does not parse.
\<close>

theorem readPackageMeta_never_throws:
  "(\<exists>v. readPackageMeta parse fs base pkg = Inr v) \<and>
   (\<forall>e. fs_readFile fs (metaPath base pkg) = Inl e \<longrightarrow>
        readPackageMeta parse fs base pkg = Inr JNull) \<and>
   (\<forall>raw. fs_readFile fs (metaPath base pkg) = Inr raw \<and> parse raw = None \<longrightarrow>
        readPackageMeta parse fs base pkg = Inr JNull) \<and>
   (\<forall>raw v. fs_readFile fs (metaPath base pkg) = Inr raw \<and> parse raw = Some v \<longrightarrow>
        readPackageMeta parse fs base pkg = Inr v)"
  by (auto simp: readPackageMeta_def readPackageMeta_try_def split: sum.splits option.splits)

theorem readPackageMeta_never_throws_witness:
  "fs_readFile [] (metaPath ''/srv'' ''a'') = Inl ENOENT \<and>
   readPackageMeta (table_parse [(JObj [], ''{}'')]) [] ''/srv'' ''a'' = Inr JNull \<and>
   fs_readFile [([''/'', ''srv'', ''packages'', ''a'', ''meta.json''], File ''{broken'')]
     (metaPath ''/srv'' ''a'') = Inr ''{broken'' \<and>
   table_parse [(JObj [], ''{}'')] ''{broken'' = None \<and>
   readPackageMeta (table_parse [(JObj [], ''{}'')])
     [([''/'', ''srv'', ''packages'', ''a'', ''meta.json''], File ''{broken'')] ''/srv'' ''a'' = Inr JNull \<and>
   readPackageMeta (table_parse [(JObj [], ''{}'')])
     [([''/'', ''srv'', ''packages'', ''a'', ''meta.json''], File ''{}'')] ''/srv'' ''a'' = Inr (JObj [])"
proof -
  let ?parse = "table_parse [(JObj [], ''{}'')]"
  let ?bad = "[([''/'', ''srv'', ''packages'', ''a'', ''meta.json''], File ''{broken'')]"
  let ?good = "[([''/'', ''srv'', ''packages'', ''a'', ''meta.json''], File ''{}'')]"
  have missing: "fs_readFile [] (metaPath ''/srv'' ''a'') = Inl ENOENT" by code_simp
  have corrupt: "fs_readFile ?bad (metaPath ''/srv'' ''a'') = Inr ''{broken''" by code_simp
  have stored: "fs_readFile ?good (metaPath ''/srv'' ''a'') = Inr ''{}''" by code_simp
  have fails: "?parse ''{broken'' = None" by (simp add: table_parse_def)
  have parses: "?parse ''{}'' = Some (JObj [])" by (simp add: table_parse_def)
  show ?thesis
    using readPackageMeta_never_throws [of ?parse "[]" "''/srv''" "''a''"]
      readPackageMeta_never_throws [of ?parse ?bad "''/srv''" "''a''"]
      readPackageMeta_never_throws [of ?parse ?good "''/srv''" "''a''"]
      missing corrupt stored fails parses
    by simp
qed

section \<open>Writing a descriptor\<close>

text \<open>
  Claim C3. The name of the temporary file is the final path followed by \<^verbatim>\<open>.tmp-\<close> and
  the clock value, so two writes of one package that see the same clock value use the same
  temporary file. Run one after the other up to the write of the temporary file, the second
  overwrites the text of the first; the rename of the first then installs the second
  document, and the rename of the second finds no file.
\<close>

theorem concurrent_writes_share_temp_file:
  "writePackageMeta_tmp stringify 1700000000000 [] ''/srv'' ''a'' A =
     (Inr (''/srv/packages/a/meta.json.tmp-1700000000000'', ''/srv/packages/a/meta.json''),
      [([''/'', ''srv'', ''packages'', ''a'', ''meta.json.tmp-1700000000000''], File (stringify (object_assign A))),
       ([''/'', ''srv'', ''packages'', ''a'', ''tarballs''], Dir),
       ([''/'', ''srv'', ''packages'', ''a''], Dir),
       ([''/'', ''srv'', ''packages''], Dir),
       ([''/'', ''srv''], Dir)]) \<and>
   writePackageMeta_tmp stringify 1700000000000
      [([''/'', ''srv'', ''packages'', ''a'', ''meta.json.tmp-1700000000000''], File (stringify (object_assign A))),
       ([''/'', ''srv'', ''packages'', ''a'', ''tarballs''], Dir),
       ([''/'', ''srv'', ''packages'', ''a''], Dir),
       ([''/'', ''srv'', ''packages''], Dir),
       ([''/'', ''srv''], Dir)] ''/srv'' ''a'' B =
     (Inr (''/srv/packages/a/meta.json.tmp-1700000000000'', ''/srv/packages/a/meta.json''),
      [([''/'', ''srv'', ''packages'', ''a'', ''meta.json.tmp-1700000000000''], File (stringify (object_assign B))),
       ([''/'', ''srv'', ''packages'', ''a'', ''tarballs''], Dir),
       ([''/'', ''srv'', ''packages'', ''a''], Dir),
       ([''/'', ''srv'', ''packages''], Dir),
       ([''/'', ''srv''], Dir)]) \<and>
   writePackageMeta_rename
      [([''/'', ''srv'', ''packages'', ''a'', ''meta.json.tmp-1700000000000''], File (stringify (object_assign B))),
       ([''/'', ''srv'', ''packages'', ''a'', ''tarballs''], Dir),
       ([''/'', ''srv'', ''packages'', ''a''], Dir),
       ([''/'', ''srv'', ''packages''], Dir),
       ([''/'', ''srv''], Dir)]
      (''/srv/packages/a/meta.json.tmp-1700000000000'', ''/srv/packages/a/meta.json'') =
     (Inr ''/srv/packages/a/meta.json'',
      [([''/'', ''srv'', ''packages'', ''a'', ''meta.json''], File (stringify (object_assign B))),
       ([''/'', ''srv'', ''packages'', ''a'', ''tarballs''], Dir),
       ([''/'', ''srv'', ''packages'', ''a''], Dir),
       ([''/'', ''srv'', ''packages''], Dir),
       ([''/'', ''srv''], Dir)]) \<and>
   fst (writePackageMeta_rename
      [([''/'', ''srv'', ''packages'', ''a'', ''meta.json''], File (stringify (object_assign B))),
       ([''/'', ''srv'', ''packages'', ''a'', ''tarballs''], Dir),
       ([''/'', ''srv'', ''packages'', ''a''], Dir),
       ([''/'', ''srv'', ''packages''], Dir),
       ([''/'', ''srv''], Dir)]
      (''/srv/packages/a/meta.json.tmp-1700000000000'', ''/srv/packages/a/meta.json'')) = Inl ENOENT"
  by code_simp

text \<open>
  What a write followed by a read does give: on a store that does not block the write and
  accepts its paths, the
  read returns the copy \<^verbatim>\<open>Object.assign({}, D)\<close> that was serialized, when the runtime parses
  the text of that copy back to it. The copy is the document itself when the document has no
  own property \<^verbatim>\<open>__proto__\<close>.
\<close>

lemma object_assign_plain:
  "list_all (\<lambda>e. fst e \<noteq> ''__proto__'') ps \<Longrightarrow> object_assign (JObj ps) = JObj ps"
  by (simp add: object_assign_def list_all_iff)

lemma read_after_write:
  assumes ub: "package_unblocked fs base pkg"
    and nm: "\<not> is_dir fs (metaPath base pkg)" and nt: "\<not> is_dir fs (tmpPath base pkg now)"
    and vp: "list_all valid_path (descriptor_paths base pkg now)"
    and codec: "parse (stringify (object_assign D)) = Some (object_assign D)"
  shows "\<exists>fs'. writePackageMeta stringify now fs base pkg D = (Inr (metaPath base pkg), fs') \<and>
               readPackageMeta parse fs' base pkg = Inr (object_assign D)"
proof -
  from writePackageMeta_succeeds [OF ub nm nt vp, of stringify D] obtain fs' where
    wr: "writePackageMeta stringify now fs base pkg D = (Inr (metaPath base pkg), fs')" by blast
  have "fs_readFile fs' (metaPath base pkg) = Inr (stringify (object_assign D))"
    using writePackageMeta_ok(2,4) [OF wr] by (simp add: fs_readFile_def key_metaPath)
  then have "readPackageMeta parse fs' base pkg = Inr (object_assign D)"
    by (simp add: readPackageMeta_def readPackageMeta_try_def codec)
  with wr show ?thesis by blast
qed

text \<open>
  Claim C4. \<^verbatim>\<open>writePackageMeta\<close> stores a document that has an own property \<^verbatim>\<open>__proto__\<close>
  exactly as it stores the document without it, so the document read back is not the one
  written.
\<close>

theorem write_drops_proto_key:
  "writePackageMeta stringify now fs base pkg (JObj ((''__proto__'', v) # ps)) =
   writePackageMeta stringify now fs base pkg (JObj (filter (\<lambda>e. fst e \<noteq> ''__proto__'') ps)) \<and>
   object_assign (JObj [(''__proto__'', JObj [(''polluted'', JBool True)]), (''name'', JStr ''a'')]) =
   JObj [(''name'', JStr ''a'')]"
proof -
  have eq: "object_assign (JObj ((''__proto__'', v) # ps)) =
      object_assign (JObj (filter (\<lambda>e. fst e \<noteq> ''__proto__'') ps))"
    by (simp add: object_assign_def)
  have "writePackageMeta stringify now fs base pkg (JObj ((''__proto__'', v) # ps)) =
   writePackageMeta stringify now fs base pkg (JObj (filter (\<lambda>e. fst e \<noteq> ''__proto__'') ps))"
    unfolding writePackageMeta_def writePackageMeta_tmp_def eq ..
  then show ?thesis by (simp add: object_assign_def)
qed

section \<open>Listing the packages\<close>

lemma two_packages_written:
  "snd (writePackageMeta stringify 1700000000001
        (snd (writePackageMeta stringify 1700000000000 [] ''/srv'' ''a'' A)) ''/srv'' ''@scope/b'' B) =
   two_packages (stringify (object_assign A)) (stringify (object_assign B))"
  by code_simp

lemma two_packages_readdir:
  "fs_readdir (two_packages a b) (path_join [''/srv'', ''packages'']) = Inr [(''@scope'', True), (''a'', True)]"
  by code_simp

lemma two_packages_files:
  "fs_readFile (two_packages a b) (metaPath ''/srv'' ''@scope'') = Inl ENOENT"
  "fs_readFile (two_packages a b) (metaPath ''/srv'' ''a'') = Inr a"
  "fs_readFile (two_packages a b) (metaPath ''/srv'' ''@scope/b'') = Inr b"
  by code_simp+

text \<open>
  Claim C2. After the descriptors of \<^verbatim>\<open>a\<close> and \<^verbatim>\<open>@scope/b\<close> have been written to an empty
  store, the listing has the keys \<^verbatim>\<open>@scope\<close> and \<^verbatim>\<open>a\<close>: the directory of the scope is
  reported as a package with the empty descriptor made up for it, and the scoped package,
  whose descriptor is stored and can be read under its name, has no key in the listing.
\<close>

theorem listing_misses_scoped_package:
  "map fst (listAllPackages parse
     (snd (writePackageMeta stringify 1700000000001
        (snd (writePackageMeta stringify 1700000000000 [] ''/srv'' ''a'' A)) ''/srv'' ''@scope/b'' B))
     ''/srv'') = [''@scope'', ''a''] \<and>
   map_of (listAllPackages parse
     (snd (writePackageMeta stringify 1700000000001
        (snd (writePackageMeta stringify 1700000000000 [] ''/srv'' ''a'' A)) ''/srv'' ''@scope/b'' B))
     ''/srv'') ''@scope'' = Some (emptyDescriptor ''@scope'') \<and>
   fs_readFile
     (snd (writePackageMeta stringify 1700000000001
        (snd (writePackageMeta stringify 1700000000000 [] ''/srv'' ''a'' A)) ''/srv'' ''@scope/b'' B))
     (metaPath ''/srv'' ''@scope/b'') = Inr (stringify (object_assign B))"
proof -
  let ?fs = "two_packages (stringify (object_assign A)) (stringify (object_assign B))"
  have r1: "readPackageMeta parse ?fs ''/srv'' ''@scope'' = Inr JNull"
    by (simp add: readPackageMeta_def readPackageMeta_try_def two_packages_files)
  obtain m where r2: "readPackageMeta parse ?fs ''/srv'' ''a'' = Inr m"
    using readPackageMeta_total [of parse ?fs "''/srv''" "''a''"] by blast
  have "listAllPackages parse ?fs ''/srv'' =
      [(''@scope'', emptyDescriptor ''@scope''), (''a'', if truthy m then m else emptyDescriptor ''a'')]"
    by (simp add: listAllPackages_def two_packages_readdir r1 r2 assign_prop_def)
  then show ?thesis by (simp add: two_packages_written two_packages_files)
qed

section \<open>Publishing metadata\<close>

lemma invalid_body_iff:
  "invalid_body v \<longleftrightarrow> (\<forall>ps. v \<noteq> JObj ps) \<and> (\<forall>xs. v \<noteq> JArr xs)"
  by (cases v) auto

text \<open>
  The guard of the handler rejects every body that is neither an object nor an array and
  leaves the file system as it is. The body parsers hand the handler the empty object for a
  request that carries no JSON text or form, so that such a request is published as \<^verbatim>\<open>{}\<close>.
\<close>

lemma putPackage_handler_rejects:
  "invalid_body body \<Longrightarrow>
   putPackage_handler stringify now uuid base body pkg fs =
     (Reply 400 (JObj [(''error'', JStr ''invalid_body''), (''reason'', JStr ''expected JSON metadata'')]), fs)"
  by (simp add: putPackage_handler_def)

lemma publish_without_payload:
  "putPackage parse (table_stringify [(JObj [], ''{}'')]) 1700000000000 ''id-1'' ''secret'' ''/srv''
     \<lparr>req_authorization = Some ''Bearer secret'', req_protocol = ''http'',
      req_host = ''localhost:4873'', req_payload = NoPayload, req_limited = False\<rparr>
     ''a'' [] =
   (Reply 201 (JObj [(''ok'', JBool True), (''id'', JStr ''id-1'')]),
    [([''/'', ''srv'', ''packages'', ''a'', ''meta.json''], File ''{}''),
     ([''/'', ''srv'', ''packages'', ''a'', ''tarballs''], Dir),
     ([''/'', ''srv'', ''packages'', ''a''], Dir),
     ([''/'', ''srv'', ''packages''], Dir),
     ([''/'', ''srv''], Dir)])"
  by code_simp




section \<open>Uploading a tarball\<close>

text \<open>
  Claim C6. An authorized upload within the rate limit that carries a tarball with a proper
  name, on a store that does not block the writes, whose file system accepts the paths of
  the upload, and that has an absent or empty descriptor (no tags, no versions) for the
  package, is answered with 201; it leaves a descriptor file whose document has the
  canonical locator \<^verbatim>\<open><scheme>://<host>/<escaped package>/-/<escaped filename>\<close> at
  \<^verbatim>\<open>versions["0.0.0"].dist.tarball\<close>, the two escaped parts being URL-escaped forms of the
  package name and the filename, and \<^verbatim>\<open>getTarballPath\<close> for the package and the filename then
  gives a path whose file holds exactly the uploaded bytes.
\<close>

theorem upload_binds_fallback_version:
  assumes auth: "authMiddleware token req = None"
    and lim: "\<not> req_limited req"
    and buf: "dataBuffer req = Some buffer"
    and vp: "list_all valid_path (upload_paths base pkg filename now)"
    and ub: "package_unblocked fs base pkg"
    and pf: "proper_filename filename"
    and nd: "\<not> is_dir fs (tarballPath base pkg filename)"
    and nm: "\<not> is_dir fs (metaPath base pkg)"
    and nt: "\<not> is_dir fs (tmpPath base pkg now)"
    and rd: "readPackageMeta parse fs base pkg = Inr d"
    and empty: "d = JNull \<or>
        (\<exists>ps. d = JObj ps \<and> map_of ps ''dist-tags'' = None \<and>
           (map_of ps ''versions'' = None \<or> map_of ps ''versions'' = Some (JObj [])))"
  shows "\<exists>fs' doc p.
     putTarball parse stringify now token base req pkg filename fs =
       (Reply 201 (JObj [(''ok'', JBool True), (''filename'', JStr filename)]), fs') \<and>
     fs_readFile fs' (metaPath base pkg) = Inr (stringify doc) \<and>
     json_at doc [''versions'', ''0.0.0'', ''dist'', ''tarball''] =
       Some (JStr (req_protocol req @ ''://'' @ req_host req @ ''/'' @ encodeURIComponent pkg @
                   ''/-/'' @ encodeURIComponent filename)) \<and>
     url_escaped (encodeURIComponent pkg) pkg \<and>
     url_escaped (encodeURIComponent filename) filename \<and>
     getTarballPath fs' base pkg filename = Some p \<and>
     fs_readFile fs' p = Inr buffer"
proof -
  note w = empty_descriptor_well_formed [OF empty]
  have own: "json_at d [''versions'', spec_version_key d] \<noteq> None \<or>
             spec_version_key d \<notin> set object_prototype_names"
    by (simp add: w(2) zero_version_not_inherited)
  from bindTarball_succeeds [OF w(1) own] obtain meta where
    bd: "bindTarball pkg (JStr (tarballUrl req pkg filename)) d = Inr meta" by blast
  from putTarball_succeeds [OF auth lim buf vp ub pf nd nm nt rd bd] obtain fs' where
    ok: "putTarball parse stringify now token base req pkg filename fs =
       (Reply 201 (JObj [(''ok'', JBool True), (''filename'', JStr filename)]), fs')" by blast
  from fallback_version_when_created [OF ok rd empty] buf ok
    encodeURIComponent_escaped [of pkg] encodeURIComponent_escaped [of filename]
  show ?thesis by auto
qed

theorem upload_binds_fallback_version_witness:
  "authMiddleware ''secret'' upload_request = None \<and>
   \<not> req_limited upload_request \<and>
   dataBuffer upload_request = Some ''tarball bytes'' \<and>
   list_all valid_path (upload_paths ''/srv'' ''left-pad'' ''left-pad-1.0.0.tgz'' 1700000000000) \<and>
   package_unblocked [] ''/srv'' ''left-pad'' \<and>
   proper_filename ''left-pad-1.0.0.tgz'' \<and>
   \<not> is_dir [] (tarballPath ''/srv'' ''left-pad'' ''left-pad-1.0.0.tgz'') \<and>
   \<not> is_dir [] (metaPath ''/srv'' ''left-pad'') \<and>
   \<not> is_dir [] (tmpPath ''/srv'' ''left-pad'' 1700000000000) \<and>
   readPackageMeta (table_parse [(left_pad_doc, left_pad_text)]) [] ''/srv'' ''left-pad'' = Inr JNull \<and>
   (\<exists>fs' doc p.
     putTarball (table_parse [(left_pad_doc, left_pad_text)]) (table_stringify [(left_pad_doc, left_pad_text)])
        1700000000000 ''secret'' ''/srv'' upload_request ''left-pad'' ''left-pad-1.0.0.tgz'' [] =
       (Reply 201 (JObj [(''ok'', JBool True), (''filename'', JStr ''left-pad-1.0.0.tgz'')]), fs') \<and>
     fs_readFile fs' (metaPath ''/srv'' ''left-pad'') =
       Inr (table_stringify [(left_pad_doc, left_pad_text)] doc) \<and>
     json_at doc [''versions'', ''0.0.0'', ''dist'', ''tarball''] =
       Some (JStr ''http://localhost:4873/left-pad/-/left-pad-1.0.0.tgz'') \<and>
     getTarballPath fs' ''/srv'' ''left-pad'' ''left-pad-1.0.0.tgz'' = Some p \<and>
     fs_readFile fs' p = Inr ''tarball bytes'') \<and>
   list_all valid_path (upload_paths ''/srv'' ''@scope/left-pad'' ''left pad-1.0.0.tgz'' 1700000000000) \<and>
   package_unblocked [] ''/srv'' ''@scope/left-pad'' \<and>
   proper_filename ''left pad-1.0.0.tgz'' \<and>
   \<not> is_dir [] (tarballPath ''/srv'' ''@scope/left-pad'' ''left pad-1.0.0.tgz'') \<and>
   \<not> is_dir [] (metaPath ''/srv'' ''@scope/left-pad'') \<and>
   \<not> is_dir [] (tmpPath ''/srv'' ''@scope/left-pad'' 1700000000000) \<and>
   readPackageMeta (table_parse [(scoped_doc, scoped_text)]) [] ''/srv'' ''@scope/left-pad'' = Inr JNull \<and>
   (\<exists>fs' doc p.
     putTarball (table_parse [(scoped_doc, scoped_text)]) (table_stringify [(scoped_doc, scoped_text)])
        1700000000000 ''secret'' ''/srv'' upload_request ''@scope/left-pad'' ''left pad-1.0.0.tgz'' [] =
       (Reply 201 (JObj [(''ok'', JBool True), (''filename'', JStr ''left pad-1.0.0.tgz'')]), fs') \<and>
     fs_readFile fs' (metaPath ''/srv'' ''@scope/left-pad'') =
       Inr (table_stringify [(scoped_doc, scoped_text)] doc) \<and>
     json_at doc [''versions'', ''0.0.0'', ''dist'', ''tarball''] =
       Some (JStr ''http://localhost:4873/%40scope%2Fleft-pad/-/left%20pad-1.0.0.tgz'') \<and>
     url_unescape ''%40scope%2Fleft-pad'' = Some ''@scope/left-pad'' \<and>
     url_unescape ''left%20pad-1.0.0.tgz'' = Some ''left pad-1.0.0.tgz'' \<and>
     getTarballPath fs' ''/srv'' ''@scope/left-pad'' ''left pad-1.0.0.tgz'' = Some p \<and>
     fs_readFile fs' p = Inr ''tarball bytes'')"
proof -
  have auth: "authMiddleware ''secret'' upload_request = None" by code_simp
  have lim: "\<not> req_limited upload_request" by code_simp
  have buf: "dataBuffer upload_request = Some ''tarball bytes''" by code_simp
  have empty: "JNull = JNull \<or>
        (\<exists>ps. JNull = JObj ps \<and> map_of ps ''dist-tags'' = None \<and>
           (map_of ps ''versions'' = None \<or> map_of ps ''versions'' = Some (JObj [])))" by simp
  have vp: "list_all valid_path (upload_paths ''/srv'' ''left-pad'' ''left-pad-1.0.0.tgz'' 1700000000000)"
    by code_simp
  have ub: "package_unblocked [] ''/srv'' ''left-pad''" by code_simp
  have pf: "proper_filename ''left-pad-1.0.0.tgz''" by code_simp
  have nd: "\<not> is_dir [] (tarballPath ''/srv'' ''left-pad'' ''left-pad-1.0.0.tgz'')" by code_simp
  have nm: "\<not> is_dir [] (metaPath ''/srv'' ''left-pad'')" by code_simp
  have nt: "\<not> is_dir [] (tmpPath ''/srv'' ''left-pad'' 1700000000000)" by code_simp
  have rd: "readPackageMeta (table_parse [(left_pad_doc, left_pad_text)]) [] ''/srv'' ''left-pad'' = Inr JNull"
    by code_simp
  have url: "req_protocol upload_request @ ''://'' @ req_host upload_request @ ''/'' @
      encodeURIComponent ''left-pad'' @ ''/-/'' @ encodeURIComponent ''left-pad-1.0.0.tgz'' =
      ''http://localhost:4873/left-pad/-/left-pad-1.0.0.tgz''" by code_simp
  have vp': "list_all valid_path (upload_paths ''/srv'' ''@scope/left-pad'' ''left pad-1.0.0.tgz'' 1700000000000)"
    by code_simp
  have ub': "package_unblocked [] ''/srv'' ''@scope/left-pad''" by code_simp
  have pf': "proper_filename ''left pad-1.0.0.tgz''" by code_simp
  have nd': "\<not> is_dir [] (tarballPath ''/srv'' ''@scope/left-pad'' ''left pad-1.0.0.tgz'')" by code_simp
  have nm': "\<not> is_dir [] (metaPath ''/srv'' ''@scope/left-pad'')" by code_simp
  have nt': "\<not> is_dir [] (tmpPath ''/srv'' ''@scope/left-pad'' 1700000000000)" by code_simp
  have rd': "readPackageMeta (table_parse [(scoped_doc, scoped_text)]) [] ''/srv'' ''@scope/left-pad'' = Inr JNull"
    by code_simp
  have url': "req_protocol upload_request @ ''://'' @ req_host upload_request @ ''/'' @
      ''%40scope%2Fleft-pad'' @ ''/-/'' @ ''left%20pad-1.0.0.tgz'' =
      ''http://localhost:4873/%40scope%2Fleft-pad/-/left%20pad-1.0.0.tgz''" by code_simp
  have ep: "encodeURIComponent ''@scope/left-pad'' = ''%40scope%2Fleft-pad''" by code_simp
  have ef: "encodeURIComponent ''left pad-1.0.0.tgz'' = ''left%20pad-1.0.0.tgz''" by code_simp
  have first: "\<exists>fs' doc p.
     putTarball (table_parse [(left_pad_doc, left_pad_text)]) (table_stringify [(left_pad_doc, left_pad_text)])
        1700000000000 ''secret'' ''/srv'' upload_request ''left-pad'' ''left-pad-1.0.0.tgz'' [] =
       (Reply 201 (JObj [(''ok'', JBool True), (''filename'', JStr ''left-pad-1.0.0.tgz'')]), fs') \<and>
     fs_readFile fs' (metaPath ''/srv'' ''left-pad'') =
       Inr (table_stringify [(left_pad_doc, left_pad_text)] doc) \<and>
     json_at doc [''versions'', ''0.0.0'', ''dist'', ''tarball''] =
       Some (JStr ''http://localhost:4873/left-pad/-/left-pad-1.0.0.tgz'') \<and>
     getTarballPath fs' ''/srv'' ''left-pad'' ''left-pad-1.0.0.tgz'' = Some p \<and>
     fs_readFile fs' p = Inr ''tarball bytes''"
    using upload_binds_fallback_version [OF auth lim buf vp ub pf nd nm nt rd empty,
      of "table_stringify [(left_pad_doc, left_pad_text)]", unfolded url]
    by blast
  have second: "\<exists>fs' doc p.
     putTarball (table_parse [(scoped_doc, scoped_text)]) (table_stringify [(scoped_doc, scoped_text)])
        1700000000000 ''secret'' ''/srv'' upload_request ''@scope/left-pad'' ''left pad-1.0.0.tgz'' [] =
       (Reply 201 (JObj [(''ok'', JBool True), (''filename'', JStr ''left pad-1.0.0.tgz'')]), fs') \<and>
     fs_readFile fs' (metaPath ''/srv'' ''@scope/left-pad'') =
       Inr (table_stringify [(scoped_doc, scoped_text)] doc) \<and>
     json_at doc [''versions'', ''0.0.0'', ''dist'', ''tarball''] =
       Some (JStr ''http://localhost:4873/%40scope%2Fleft-pad/-/left%20pad-1.0.0.tgz'') \<and>
     url_unescape ''%40scope%2Fleft-pad'' = Some ''@scope/left-pad'' \<and>
     url_unescape ''left%20pad-1.0.0.tgz'' = Some ''left pad-1.0.0.tgz'' \<and>
     getTarballPath fs' ''/srv'' ''@scope/left-pad'' ''left pad-1.0.0.tgz'' = Some p \<and>
     fs_readFile fs' p = Inr ''tarball bytes''"
    using upload_binds_fallback_version [OF auth lim buf vp' ub' pf' nd' nm' nt' rd' empty,
      of "table_stringify [(scoped_doc, scoped_text)]", unfolded ep ef url' url_escaped_def]
    by blast
  from auth lim buf vp ub pf nd nm nt rd first vp' ub' pf' nd' nm' nt' rd' second
  show ?thesis by blast
qed

text \<open>
  Claim C5, as stated, fails: a descriptor whose \<^verbatim>\<open>dist-tags\<close> has the entry \<^verbatim>\<open>latest\<close> with
  the empty string is bound at \<^verbatim>\<open>versions["0.0.0"]\<close>, not at the version of the entry.
\<close>

theorem empty_latest_tag_falls_back:
  "json_at (JObj [(''dist-tags'', JObj [(''latest'', JStr [])]), (''versions'', JObj [])])
     [''dist-tags'', ''latest''] = Some (JStr []) \<and>
   bindTarball ''p'' (JStr ''http://localhost:4873/p/-/p.tgz'')
     (JObj [(''dist-tags'', JObj [(''latest'', JStr [])]), (''versions'', JObj [])]) =
   Inr (JObj [(''dist-tags'', JObj [(''latest'', JStr [])]),
              (''versions'',
               JObj [(''0.0.0'', JObj [(''dist'', JObj [(''tarball'', JStr ''http://localhost:4873/p/-/p.tgz'')])])])])"
  by code_simp

text \<open>
  Claim C5, amended. An authorized upload within the rate limit that carries a tarball with
  a proper name, on a store that does not block the writes, whose file system accepts the
  paths of the upload, and whose descriptor for the package is absent or one of the data
  model, is answered with 201. Its version key is the \<^verbatim>\<open>latest\<close> tag when that is a non-empty
  string and \<^verbatim>\<open>0.0.0\<close> otherwise; the document written has the locator at
  \<^verbatim>\<open>versions[key].dist.tarball\<close>, and every other entry of \<^verbatim>\<open>versions\<close> is as it was read, so
  that with the tag \<^verbatim>\<open>2.1.0\<close> no entry \<^verbatim>\<open>0.0.0\<close> is created. The key is taken to be an entry
  of \<^verbatim>\<open>versions\<close> or not the name of a property inherited from \<^verbatim>\<open>Object.prototype\<close>.
\<close>

theorem upload_resolves_version_key:
  assumes auth: "authMiddleware token req = None"
    and lim: "\<not> req_limited req"
    and buf: "dataBuffer req = Some buffer"
    and vp: "list_all valid_path (upload_paths base pkg filename now)"
    and ub: "package_unblocked fs base pkg"
    and pf: "proper_filename filename"
    and nd: "\<not> is_dir fs (tarballPath base pkg filename)"
    and nm: "\<not> is_dir fs (metaPath base pkg)"
    and nt: "\<not> is_dir fs (tmpPath base pkg now)"
    and rd: "readPackageMeta parse fs base pkg = Inr d"
    and wf: "d = JNull \<or> well_formed_descriptor d"
    and own: "json_at d [''versions'', spec_version_key d] \<noteq> None \<or>
              spec_version_key d \<notin> set object_prototype_names"
  shows "\<exists>fs' doc.
     putTarball parse stringify now token base req pkg filename fs =
       (Reply 201 (JObj [(''ok'', JBool True), (''filename'', JStr filename)]), fs') \<and>
     fs_readFile fs' (metaPath base pkg) = Inr (stringify doc) \<and>
     json_at doc [''versions'', spec_version_key d, ''dist'', ''tarball''] =
       Some (JStr (tarballUrl req pkg filename)) \<and>
     (\<forall>k. k \<noteq> spec_version_key d \<longrightarrow> json_at doc [''versions'', k] = json_at d [''versions'', k])"
proof -
  from bindTarball_succeeds [OF wf own] obtain meta where
    bd: "bindTarball pkg (JStr (tarballUrl req pkg filename)) d = Inr meta" by blast
  from putTarball_succeeds [OF auth lim buf vp ub pf nd nm nt rd bd] obtain fs' where
    ok: "putTarball parse stringify now token base req pkg filename fs =
       (Reply 201 (JObj [(''ok'', JBool True), (''filename'', JStr filename)]), fs')" by blast
  from version_key_when_created [OF ok rd wf own] ok show ?thesis by blast
qed

theorem upload_resolves_version_key_witness:
  "authMiddleware ''secret'' upload_request = None \<and>
   \<not> req_limited upload_request \<and>
   dataBuffer upload_request = Some ''tarball bytes'' \<and>
   list_all valid_path (upload_paths ''/srv'' ''p'' ''p-2.1.0.tgz'' 1700000000000) \<and>
   package_unblocked tagged_store ''/srv'' ''p'' \<and>
   proper_filename ''p-2.1.0.tgz'' \<and>
   \<not> is_dir tagged_store (tarballPath ''/srv'' ''p'' ''p-2.1.0.tgz'') \<and>
   \<not> is_dir tagged_store (metaPath ''/srv'' ''p'') \<and>
   \<not> is_dir tagged_store (tmpPath ''/srv'' ''p'' 1700000000000) \<and>
   readPackageMeta (table_parse [(tagged_doc, tagged_text), (tagged_doc_bound, tagged_text_bound)])
     tagged_store ''/srv'' ''p'' = Inr tagged_doc \<and>
   well_formed_descriptor tagged_doc \<and>
   spec_version_key tagged_doc = ''2.1.0'' \<and>
   json_at tagged_doc [''versions'', ''2.1.0''] \<noteq> None \<and>
   json_at tagged_doc [''versions'', ''0.0.0''] = None \<and>
   (\<exists>fs' doc.
     putTarball (table_parse [(tagged_doc, tagged_text), (tagged_doc_bound, tagged_text_bound)])
        (table_stringify [(tagged_doc, tagged_text), (tagged_doc_bound, tagged_text_bound)])
        1700000000000 ''secret'' ''/srv'' upload_request ''p'' ''p-2.1.0.tgz'' tagged_store =
       (Reply 201 (JObj [(''ok'', JBool True), (''filename'', JStr ''p-2.1.0.tgz'')]), fs') \<and>
     fs_readFile fs' (metaPath ''/srv'' ''p'') =
       Inr (table_stringify [(tagged_doc, tagged_text), (tagged_doc_bound, tagged_text_bound)] doc) \<and>
     json_at doc [''versions'', ''2.1.0'', ''dist'', ''tarball''] =
       Some (JStr ''http://localhost:4873/p/-/p-2.1.0.tgz'') \<and>
     json_at doc [''versions'', ''0.0.0''] = None)"
proof -
  let ?parse = "table_parse [(tagged_doc, tagged_text), (tagged_doc_bound, tagged_text_bound)]"
  let ?stringify = "table_stringify [(tagged_doc, tagged_text), (tagged_doc_bound, tagged_text_bound)]"
  have auth: "authMiddleware ''secret'' upload_request = None" by code_simp
  have lim: "\<not> req_limited upload_request" by code_simp
  have buf: "dataBuffer upload_request = Some ''tarball bytes''" by code_simp
  have vp: "list_all valid_path (upload_paths ''/srv'' ''p'' ''p-2.1.0.tgz'' 1700000000000)"
    by code_simp
  have ub: "package_unblocked tagged_store ''/srv'' ''p''" by code_simp
  have pf: "proper_filename ''p-2.1.0.tgz''" by code_simp
  have nd: "\<not> is_dir tagged_store (tarballPath ''/srv'' ''p'' ''p-2.1.0.tgz'')" by code_simp
  have nm: "\<not> is_dir tagged_store (metaPath ''/srv'' ''p'')" by code_simp
  have nt: "\<not> is_dir tagged_store (tmpPath ''/srv'' ''p'' 1700000000000)" by code_simp
  have rd: "readPackageMeta ?parse tagged_store ''/srv'' ''p'' = Inr tagged_doc" by code_simp
  have wf: "well_formed_descriptor tagged_doc" by code_simp
  have key: "spec_version_key tagged_doc = ''2.1.0''" by code_simp
  have there: "json_at tagged_doc [''versions'', ''2.1.0''] \<noteq> None" by code_simp
  have none: "json_at tagged_doc [''versions'', ''0.0.0''] = None" by code_simp
  have url: "tarballUrl upload_request ''p'' ''p-2.1.0.tgz'' = ''http://localhost:4873/p/-/p-2.1.0.tgz''"
    by code_simp
  have wf': "tagged_doc = JNull \<or> well_formed_descriptor tagged_doc" using wf by simp
  have own: "json_at tagged_doc [''versions'', spec_version_key tagged_doc] \<noteq> None \<or>
             spec_version_key tagged_doc \<notin> set object_prototype_names"
    using there by (simp add: key)
  from upload_resolves_version_key [OF auth lim buf vp ub pf nd nm nt rd wf' own, of ?stringify,
      unfolded key url]
  obtain fs' doc where
    "putTarball ?parse ?stringify 1700000000000 ''secret'' ''/srv'' upload_request ''p'' ''p-2.1.0.tgz''
       tagged_store = (Reply 201 (JObj [(''ok'', JBool True), (''filename'', JStr ''p-2.1.0.tgz'')]), fs')"
    "fs_readFile fs' (metaPath ''/srv'' ''p'') = Inr (?stringify doc)"
    "json_at doc [''versions'', ''2.1.0'', ''dist'', ''tarball''] =
       Some (JStr ''http://localhost:4873/p/-/p-2.1.0.tgz'')"
    "\<forall>k. k \<noteq> ''2.1.0'' \<longrightarrow> json_at doc [''versions'', k] = json_at tagged_doc [''versions'', k]"
    by blast
  moreover from this(4) none have "json_at doc [''versions'', ''0.0.0''] = None" by simp
  ultimately show ?thesis using auth lim buf vp ub pf nd nm nt rd wf key there none by blast
qed

text \<open>
  Claim C9. An upload for a descriptor that has an own field \<^verbatim>\<open>__proto__\<close> hands
  \<^verbatim>\<open>writePackageMeta\<close> a descriptor with that field, and the copy that is serialized has
  lost it: a field other than \<^verbatim>\<open>dist.tarball\<close> of the resolved version differs between the
  descriptor read and the descriptor written.
\<close>

theorem upload_drops_proto_field:
  "bindTarball ''a'' (JStr u) (JObj [(''__proto__'', JObj [(''x'', JNum ''1'')]), (''name'', JStr ''a'')]) =
     Inr (JObj [(''__proto__'', JObj [(''x'', JNum ''1'')]), (''name'', JStr ''a''),
                (''versions'', JObj [(''0.0.0'', JObj [(''dist'', JObj [(''tarball'', JStr u)])])])]) \<and>
   object_assign (JObj [(''__proto__'', JObj [(''x'', JNum ''1'')]), (''name'', JStr ''a''),
                (''versions'', JObj [(''0.0.0'', JObj [(''dist'', JObj [(''tarball'', JStr u)])])])]) =
     JObj [(''name'', JStr ''a''),
           (''versions'', JObj [(''0.0.0'', JObj [(''dist'', JObj [(''tarball'', JStr u)])])])]"
  by code_simp

end
